theory Spec2Isabelle
  imports
    Main
    "HOL-Library.AList"
    "HOL-Library.Char_ord"
    "HOL-Library.List_Lexorder"
    "HOL-Library.Product_Lexorder"
begin

section \<open>Strings as the program uses them\<close>

text \<open>
  A Python \<open>str\<close> is modelled as a \<open>string\<close>: the model covers the texts whose code
  points are below 256, one \<open>char\<close> per code point. The order on strings is the
  lexicographic order on code points, which is how Python compares \<open>str\<close> values.
\<close>

definition LF :: char where
  "LF = CHR 0x0A"

definition CR :: char where
  "CR = CHR 0x0D"

text \<open>\<open>str.isspace\<close> on one code point below 256.\<close>

definition py_isspace :: "char \<Rightarrow> bool" where
  "py_isspace c =
     (let n = (of_char c :: nat)
      in (9 \<le> n \<and> n \<le> 13) \<or> (28 \<le> n \<and> n \<le> 32) \<or> n = 133 \<or> n = 160)"

text \<open>\<open>s.strip()\<close>: leading and trailing whitespace removed.\<close>

definition py_strip :: "string \<Rightarrow> string" where
  "py_strip s = rev (dropWhile py_isspace (rev (dropWhile py_isspace s)))"

text \<open>\<open>s.startswith('#')\<close>.\<close>

fun startswith_hash :: "string \<Rightarrow> bool" where
  "startswith_hash [] = False"
| "startswith_hash (c # cs) = (c = CHR ''#'')"

text \<open>\<open>s.split('=', 1)\<close> for an \<open>s\<close> that contains \<open>=\<close>: the text before the first
  \<open>=\<close> and the text after it.\<close>

definition split_eq :: "string \<Rightarrow> string \<times> string" where
  "split_eq s =
     (takeWhile (\<lambda>c. c \<noteq> CHR ''='') s, drop 1 (dropWhile (\<lambda>c. c \<noteq> CHR ''='') s))"

text \<open>\<open>s.endswith(suffix)\<close>.\<close>

definition endswith :: "string \<Rightarrow> string \<Rightarrow> bool" where
  "endswith s suffix =
     (length suffix \<le> length s \<and> drop (length s - length suffix) s = suffix)"

text \<open>\<open>str(i)\<close> for an integer: decimal digits, with a minus for a negative number.\<close>

definition digit_char :: "nat \<Rightarrow> char" where
  "digit_char d = char_of (48 + d)"

function nat_digits :: "nat \<Rightarrow> string" where
  "nat_digits n = (if n < 10 then [digit_char n] else nat_digits (n div 10) @ [digit_char (n mod 10)])"
  by pat_completeness auto
termination
  by (relation "measure (\<lambda>n. n)") auto

declare nat_digits.simps [simp del]

definition py_str_int :: "int \<Rightarrow> string" where
  "py_str_int i = (if i < 0 then CHR ''-'' # nat_digits (nat (- i)) else nat_digits (nat i))"

text \<open>A text between two double quote characters, and the f-string that puts a number
  there.\<close>

definition quoted :: "string \<Rightarrow> string" where
  "quoted s = [CHR 0x22] @ s @ [CHR 0x22]"

definition quoted_int :: "int \<Rightarrow> string" where
  "quoted_int i = quoted (py_str_int i)"

text \<open>\<open>s.replace(old, '')\<close>: every occurrence of \<open>old\<close> removed, left to right.\<close>

function remove_substr :: "string \<Rightarrow> string \<Rightarrow> string" where
  "remove_substr old s =
     (if old = [] \<or> s = [] then s
      else if take (length old) s = old then remove_substr old (drop (length old) s)
      else hd s # remove_substr old (tl s))"
  by pat_completeness auto
termination
  by (relation "measure (\<lambda>(old, s). length s)") auto

declare remove_substr.simps [simp del]

text \<open>\<open>Path.stem\<close> of a file name: the name without its last suffix; a name whose only
  dot is the first or the last character has no suffix.\<close>

definition py_stem :: "string \<Rightarrow> string" where
  "py_stem name =
     (let after = length (takeWhile (\<lambda>c. c \<noteq> CHR ''.'') (rev name));
          i = length name - after - 1
      in if CHR ''.'' \<in> set name \<and> 0 < i \<and> 0 < after then take i name else name)"

section \<open>Text files read line by line\<close>

text \<open>
  A file opened in text mode is read with universal newlines: a line ends at \<open>\n\<close>, at
  \<open>\r\<close> or at \<open>\r\n\<close>, and the line handed to the loop ends in \<open>\n\<close> whichever it
  was; the last line has no terminator when the file does not end in one.
  \<open>text_lines_acc cur s\<close> is the list of the lines of \<open>s\<close>, the first one prefixed
  by \<open>cur\<close>.
\<close>

fun text_lines_acc :: "string \<Rightarrow> string \<Rightarrow> string list" where
  "text_lines_acc cur [] = (if cur = [] then [] else [cur])"
| "text_lines_acc cur [c] = (if c = LF \<or> c = CR then [cur @ [LF]] else [cur @ [c]])"
| "text_lines_acc cur (c # d # cs) =
     (if c = CR \<and> d = LF then (cur @ [LF]) # text_lines_acc [] cs
      else if c = LF \<or> c = CR then (cur @ [LF]) # text_lines_acc [] (d # cs)
      else text_lines_acc (cur @ [c]) (d # cs))"

definition text_lines :: "string \<Rightarrow> string list" where
  "text_lines s = text_lines_acc [] s"

section \<open>Config records and their file format\<close>

text \<open>
  A config record is a Python \<open>dict\<close> from \<open>str\<close> to \<open>str\<close>: an association list whose
  keys are distinct, in insertion order. \<open>AList.update\<close> is \<open>config[k] = v\<close> (the value
  replaced in place, or the pair appended), \<open>AList.delete\<close> is \<open>del config[k]\<close> and
  \<open>map_of\<close> the lookup.
\<close>

type_synonym config = "(string \<times> string) list"

text \<open>The body of the loop of \<open>read_config_file\<close>, for one line of the file.\<close>

definition read_line :: "config \<Rightarrow> string \<Rightarrow> config" where
  "read_line config line0 =
     (let line = py_strip line0
      in if CHR ''='' \<in> set line \<and> \<not> startswith_hash line
         then (case split_eq line of
                 (key, value) \<Rightarrow> AList.update (py_strip key) (py_strip value) config)
         else config)"

text \<open>\<open>read_config_file\<close> on the text of an existing file.\<close>

definition read_config_text :: "string \<Rightarrow> config" where
  "read_config_text content = foldl read_line [] (text_lines content)"

definition viewport_order :: "string list" where
  "viewport_order =
     [''aspect_ratio_index'', ''custom_viewport_x'', ''custom_viewport_y'',
      ''custom_viewport_width'', ''custom_viewport_height'']"

text \<open>The line \<open>f'{key} = {value}\n'\<close>.\<close>

definition config_line :: "string \<Rightarrow> string \<Rightarrow> string" where
  "config_line key value = key @ '' = '' @ value @ [LF]"

text \<open>The two loops of \<open>write_config_file\<close>; \<open>out\<close> is the text written so far.\<close>

definition write_viewport_key :: "config \<Rightarrow> string \<Rightarrow> string \<Rightarrow> string" where
  "write_viewport_key config out key =
     (case map_of config key of
        Some value \<Rightarrow> out @ config_line key value
      | None \<Rightarrow> out)"

definition write_other_item :: "string \<Rightarrow> string \<times> string \<Rightarrow> string" where
  "write_other_item out item =
     (case item of
        (key, value) \<Rightarrow>
          if key \<notin> set viewport_order then out @ config_line key value else out)"

text \<open>The text \<open>write_config_file\<close> leaves in the file.\<close>

definition write_config_text :: "config \<Rightarrow> string" where
  "write_config_text config =
     foldl write_other_item
       (foldl (write_viewport_key config) [] viewport_order)
       (sort config)"

section \<open>Files and folders\<close>

text \<open>
  The part of the file system the manager touches: the existing folders, each with the
  text files it holds, in the order the folder lists them. A file name is one path
  component. Failures of the operating system other than a missing folder or file are
  outside the model.
\<close>

type_synonym path = string
type_synonym directory = "(string \<times> string) list"
type_synonym filesystem = "(path \<times> directory) list"

datatype error = ValueError | TypeError | FileNotFoundError | ParseError string

definition dir_exists :: "filesystem \<Rightarrow> path \<Rightarrow> bool" where
  "dir_exists files d = (map_of files d \<noteq> None)"

definition file_text :: "filesystem \<Rightarrow> path \<Rightarrow> string \<Rightarrow> string option" where
  "file_text files d n = (case map_of files d of None \<Rightarrow> None | Some dir \<Rightarrow> map_of dir n)"

definition file_exists :: "filesystem \<Rightarrow> path \<Rightarrow> string \<Rightarrow> bool" where
  "file_exists files d n = (file_text files d n \<noteq> None)"

text \<open>\<open>open(path, 'w')\<close>, the writes and the close: the file holds the text written.\<close>

definition write_file :: "filesystem \<Rightarrow> path \<Rightarrow> string \<Rightarrow> string \<Rightarrow> error + filesystem" where
  "write_file files d n content =
     (case map_of files d of
        None \<Rightarrow> Inl FileNotFoundError
      | Some dir \<Rightarrow> Inr (AList.update d (AList.update n content dir) files))"

definition unlink :: "filesystem \<Rightarrow> path \<Rightarrow> string \<Rightarrow> error + filesystem" where
  "unlink files d n =
     (case map_of files d of
        None \<Rightarrow> Inl FileNotFoundError
      | Some dir \<Rightarrow>
          if map_of dir n = None then Inl FileNotFoundError
          else Inr (AList.update d (AList.delete n dir) files))"

text \<open>\<open>folder.glob('*' + suffix)\<close>: the names in the folder that end in the suffix.\<close>

definition glob_suffix :: "filesystem \<Rightarrow> path \<Rightarrow> string \<Rightarrow> string list" where
  "glob_suffix files d suffix =
     (case map_of files d of
        None \<Rightarrow> []
      | Some dir \<Rightarrow> filter (\<lambda>n. endswith n suffix) (map fst dir))"

definition read_config_file :: "filesystem \<Rightarrow> path \<Rightarrow> string \<Rightarrow> config" where
  "read_config_file files d n =
     (case file_text files d n of None \<Rightarrow> [] | Some content \<Rightarrow> read_config_text content)"

definition write_config_file :: "filesystem \<Rightarrow> path \<Rightarrow> string \<Rightarrow> config \<Rightarrow> error + filesystem" where
  "write_config_file files d n config = write_file files d n (write_config_text config)"

section \<open>The manager\<close>

record GameInfo =
  gi_name :: string
  gi_width :: int
  gi_height :: int
  gi_description :: string
  gi_year :: string
  gi_manufacturer :: string
  gi_cloneof :: string
  gi_rotate :: string
  gi_screen_type :: string

text \<open>The attributes of a \<open>ViewportConfigurationManager\<close> after \<open>__init__\<close>: a folder that
  was not given is \<open>None\<close>.\<close>

record manager =
  dat_file :: "path option"
  rom_folder :: "path option"
  export_folder :: "path option"
  override_width :: "int option"
  override_height :: "int option"
  override_x :: "int option"
  override_y :: "int option"
  game_resolutions :: "(string \<times> int \<times> int) list"
  game_info :: "(string \<times> GameInfo) list"

text \<open>What the manager acts on: the files, the lines handed to the log callback and the
  calls made to a progress callback. An operation that can raise returns the exception
  (\<open>Inl\<close>) or its result with the world it leaves (\<open>Inr\<close>); what a call did before
  it raised is not kept.\<close>

record world =
  fs :: filesystem
  logs :: "string list"
  progress :: "(nat \<times> nat \<times> string) list"

definition log :: "string \<Rightarrow> world \<Rightarrow> world" where
  "log message w = w\<lparr>logs := logs w @ [message]\<rparr>"

text \<open>\<open>self.export_folder if self.export_folder else self.rom_folder\<close>.\<close>

definition output_folder :: "manager \<Rightarrow> path option" where
  "output_folder m = (case export_folder m of Some e \<Rightarrow> Some e | None \<Rightarrow> rom_folder m)"

text \<open>\<open>f"{folder}"\<close> for a folder that may be \<open>None\<close>.\<close>

definition str_path :: "path option \<Rightarrow> string" where
  "str_path p = (case p of None \<Rightarrow> ''None'' | Some d \<Rightarrow> d)"

definition or_zero :: "int option \<Rightarrow> int" where
  "or_zero x = (case x of Some v \<Rightarrow> v | None \<Rightarrow> 0)"

text \<open>The five assignments of \<open>update_rom_config\<close> to the record read.\<close>

definition set_viewport_keys :: "config \<Rightarrow> int \<Rightarrow> int \<Rightarrow> int option \<Rightarrow> int option \<Rightarrow> config" where
  "set_viewport_keys config0 width height x y =
     (let config1 = AList.update ''custom_viewport_width'' (quoted_int width) config0;
          config2 = AList.update ''custom_viewport_height'' (quoted_int height) config1;
          config3 = AList.update ''custom_viewport_x'' (quoted_int (or_zero x)) config2;
          config4 = AList.update ''custom_viewport_y'' (quoted_int (or_zero y)) config3
      in AList.update ''aspect_ratio_index'' (quoted ''23'') config4)"

definition update_rom_config ::
  "manager \<Rightarrow> world \<Rightarrow> string \<Rightarrow> int \<Rightarrow> int \<Rightarrow> int option \<Rightarrow> int option \<Rightarrow> error + world" where
  "update_rom_config m w rom_name width height x y =
     (case output_folder m of
        None \<Rightarrow> Inl TypeError
      | Some folder \<Rightarrow>
          let name = rom_name @ ''.zip.cfg'';
              config = set_viewport_keys (read_config_file (fs w) folder name) width height x y
          in (case write_config_file (fs w) folder name config of
               Inl e \<Rightarrow> Inl e
             | Inr files \<Rightarrow>
                 let action = (if file_exists files folder name then ''Updated'' else ''Created'');
                     log_msg = action @ '' config for '' @ rom_name @ ''.zip: ''
                                 @ py_str_int width @ ''x'' @ py_str_int height;
                     log_msg' = (if x \<noteq> None \<or> y \<noteq> None
                                 then log_msg @ '' at ('' @ py_str_int (or_zero x) @ '', ''
                                        @ py_str_int (or_zero y) @ '')''
                                 else log_msg)
                 in Inr (log log_msg' (w\<lparr>fs := files\<rparr>))))"

text \<open>The loop of \<open>remove_rom_config\<close> over the five keys.\<close>

fun remove_keys :: "config \<Rightarrow> bool \<Rightarrow> string list \<Rightarrow> config \<times> bool" where
  "remove_keys config removed_any [] = (config, removed_any)"
| "remove_keys config removed_any (key # keys) =
     (if map_of config key \<noteq> None then remove_keys (AList.delete key config) True keys
      else remove_keys config removed_any keys)"

definition remove_rom_config ::
  "manager \<Rightarrow> world \<Rightarrow> string \<Rightarrow> bool \<Rightarrow> error + ((bool \<times> bool) \<times> world)" where
  "remove_rom_config m w rom_name delete_if_empty =
     (case output_folder m of
        None \<Rightarrow> Inl TypeError
      | Some folder \<Rightarrow>
          let name = rom_name @ ''.zip.cfg''
          in if \<not> file_exists (fs w) folder name
             then Inr ((False, False), log (''No config file found for '' @ rom_name @ ''.zip'') w)
             else
               case remove_keys (read_config_file (fs w) folder name) False
                      [''custom_viewport_width'', ''custom_viewport_height'',
                       ''custom_viewport_x'', ''custom_viewport_y'', ''aspect_ratio_index''] of
                 (config, removed_any) \<Rightarrow>
                   if \<not> removed_any
                   then Inr ((False, False),
                          log (''No viewport overrides found in config for '' @ rom_name @ ''.zip'') w)
                   else
                     let is_empty = (config = [])
                     in if is_empty \<and> delete_if_empty
                        then (case unlink (fs w) folder name of
                                Inl e \<Rightarrow> Inl e
                              | Inr files \<Rightarrow>
                                  Inr ((True, is_empty),
                                    log (''Removed config file for '' @ rom_name
                                           @ ''.zip (was empty after removing overrides)'')
                                      (w\<lparr>fs := files\<rparr>)))
                        else if is_empty
                        then (case write_config_file (fs w) folder name config of
                                Inl e \<Rightarrow> Inl e
                              | Inr files \<Rightarrow>
                                  Inr ((True, is_empty),
                                    log (''Config for '' @ rom_name
                                           @ ''.zip is now empty after removing overrides'')
                                      (w\<lparr>fs := files\<rparr>)))
                        else (case write_config_file (fs w) folder name config of
                                Inl e \<Rightarrow> Inl e
                              | Inr files \<Rightarrow>
                                  Inr ((True, is_empty),
                                    log (''Removed viewport overrides from '' @ rom_name
                                           @ ''.zip config'')
                                      (w\<lparr>fs := files\<rparr>))))"

text \<open>A progress callback, when one is given, is called with the index, the total_count and the
  ROM name; the model records the call.\<close>

definition notify :: "bool \<Rightarrow> nat \<Rightarrow> nat \<Rightarrow> string \<Rightarrow> world \<Rightarrow> world" where
  "notify callback idx total_count rom_name w =
     (if callback then w\<lparr>progress := progress w @ [(idx, total_count, rom_name)]\<rparr> else w)"

text \<open>The loop of \<open>remove_all_overrides\<close> over the config files found, with the two
  counters.\<close>

fun remove_all_loop ::
  "path \<Rightarrow> bool \<Rightarrow> nat \<Rightarrow> nat \<Rightarrow> nat \<times> nat \<Rightarrow> world \<Rightarrow> string list
     \<Rightarrow> error + ((nat \<times> nat) \<times> world)" where
  "remove_all_loop folder callback total_count idx counts w [] = Inr (counts, w)"
| "remove_all_loop folder callback total_count idx counts w (config_file # rest) =
     (let rom_name = remove_substr ''.zip'' (py_stem config_file);
          w1 = notify callback idx total_count rom_name w;
          config0 = read_config_file (fs w1) folder config_file;
          has_overrides = list_ex (\<lambda>key. map_of config0 key \<noteq> None)
            [''custom_viewport_width'', ''custom_viewport_height'', ''aspect_ratio_index'']
      in if has_overrides
         then
           let config = AList.delete ''aspect_ratio_index''
                          (AList.delete ''custom_viewport_height''
                             (AList.delete ''custom_viewport_width'' config0))
           in if config = []
              then (case unlink (fs w1) folder config_file of
                      Inl e \<Rightarrow> Inl e
                    | Inr files \<Rightarrow>
                        remove_all_loop folder callback total_count (idx + 1)
                          (fst counts + 1, snd counts)
                          (log (''Removed '' @ config_file
                                  @ '' (was empty after removing overrides)'')
                             (w1\<lparr>fs := files\<rparr>))
                          rest)
              else (case write_config_file (fs w1) folder config_file config of
                      Inl e \<Rightarrow> Inl e
                    | Inr files \<Rightarrow>
                        remove_all_loop folder callback total_count (idx + 1)
                          (fst counts + 1, snd counts)
                          (log (''Removed viewport overrides from '' @ config_file)
                             (w1\<lparr>fs := files\<rparr>))
                          rest)
         else remove_all_loop folder callback total_count (idx + 1)
                (fst counts, snd counts + 1) w1 rest)"

definition str_nat :: "nat \<Rightarrow> string" where
  "str_nat n = py_str_int (int n)"

definition remove_all_overrides ::
  "manager \<Rightarrow> world \<Rightarrow> bool \<Rightarrow> error + ((nat \<times> nat) \<times> world)" where
  "remove_all_overrides m w callback =
     (case output_folder m of
        None \<Rightarrow> Inr ((0, 0), log (''Output folder not found: '' @ str_path None) w)
      | Some folder \<Rightarrow>
          if \<not> dir_exists (fs w) folder
          then Inr ((0, 0), log (''Output folder not found: '' @ folder) w)
          else
            let config_files = glob_suffix (fs w) folder ''.zip.cfg'';
                w1 = log (''Found '' @ str_nat (length config_files) @ '' config files in ''
                            @ folder) w
            in (case remove_all_loop folder callback (length config_files) 1 (0, 0) w1
                      config_files of
                 Inl e \<Rightarrow> Inl e
               | Inr ((removed_count, skipped_count), w2) \<Rightarrow>
                   Inr ((removed_count, skipped_count),
                     log (''  Skipped: '' @ str_nat skipped_count)
                       (log (''  Removed: '' @ str_nat removed_count)
                          (log (LF # ''Removal complete:'') w2)))))"

definition get_rom_files :: "manager \<Rightarrow> world \<Rightarrow> string list \<times> world" where
  "get_rom_files m w =
     (case rom_folder m of
        None \<Rightarrow> ([], log (''ROM folder not found: '' @ str_path None) w)
      | Some folder \<Rightarrow>
          if \<not> dir_exists (fs w) folder
          then ([], log (''ROM folder not found: '' @ folder) w)
          else
            let rom_files = glob_suffix (fs w) folder ''.zip''
            in (rom_files,
                log (''Found '' @ str_nat (length rom_files) @ '' ROM files in '' @ folder) w))"

text \<open>The loop of \<open>process_roms\<close> over the ROM files found, with the two counters.\<close>

fun process_loop ::
  "manager \<Rightarrow> bool \<Rightarrow> nat \<Rightarrow> nat \<Rightarrow> nat \<times> nat \<Rightarrow> world \<Rightarrow> string list
     \<Rightarrow> error + ((nat \<times> nat) \<times> world)" where
  "process_loop m callback total_count idx counts w [] = Inr (counts, w)"
| "process_loop m callback total_count idx counts w (rom_file # rest) =
     (let rom_name = py_stem rom_file;
          w1 = notify callback idx total_count rom_name w
      in case map_of (game_resolutions m) rom_name of
           Some (dat_width, dat_height) \<Rightarrow>
             let width = (case override_width m of Some v \<Rightarrow> v | None \<Rightarrow> dat_width);
                 height = (case override_height m of Some v \<Rightarrow> v | None \<Rightarrow> dat_height)
             in (case update_rom_config m w1 rom_name width height (override_x m) (override_y m) of
                   Inl e \<Rightarrow> Inl e
                 | Inr w2 \<Rightarrow>
                     process_loop m callback total_count (idx + 1) (fst counts + 1, snd counts) w2 rest)
         | None \<Rightarrow>
             process_loop m callback total_count (idx + 1) (fst counts, snd counts + 1)
               (log (''Skipped '' @ rom_name @ ''.zip: No resolution data in DAT file'') w1)
               rest)"

definition process_roms ::
  "manager \<Rightarrow> world \<Rightarrow> bool \<Rightarrow> error + ((nat \<times> nat) \<times> world)" where
  "process_roms m w callback =
     (case get_rom_files m w of
        (rom_files, w1) \<Rightarrow>
          (case process_loop m callback (length rom_files) 1 (0, 0) w1 rom_files of
             Inl e \<Rightarrow> Inl e
           | Inr ((processed_count, skipped_count), w2) \<Rightarrow>
               Inr ((processed_count, skipped_count),
                 log (''  Skipped: '' @ str_nat skipped_count)
                   (log (''  Processed: '' @ str_nat processed_count)
                      (log (LF # ''Processing complete:'') w2)))))"

section \<open>The catalog parser\<close>

text \<open>
  The tree \<open>ET.parse\<close> returns: an element has a tag, attributes, a text and children.
  Reading and parsing the file is the library's work; the parser of the manager starts
  from its outcome, a tree or the exception raised.
\<close>

datatype element =
  Element (tag: string) (attrib: "(string \<times> string) list") (elem_text: "string option")
    (children: "element list")

fun descendants :: "element \<Rightarrow> element list" where
  "descendants (Element t a x cs) = concat (map (\<lambda>c. c # descendants c) cs)"

text \<open>\<open>e.findall('.//t')\<close>, \<open>e.find('.//t')\<close>, \<open>e.find('t')\<close>, \<open>e.get(k)\<close> and
  \<open>e.get(k, default)\<close>.\<close>

definition findall_desc :: "element \<Rightarrow> string \<Rightarrow> element list" where
  "findall_desc e t = filter (\<lambda>c. tag c = t) (descendants e)"

definition find_desc :: "element \<Rightarrow> string \<Rightarrow> element option" where
  "find_desc e t = (case findall_desc e t of [] \<Rightarrow> None | c # _ \<Rightarrow> Some c)"

definition find_child :: "element \<Rightarrow> string \<Rightarrow> element option" where
  "find_child e t = List.find (\<lambda>c. tag c = t) (children e)"

definition get_attr :: "element \<Rightarrow> string \<Rightarrow> string option" where
  "get_attr e k = map_of (attrib e) k"

definition get_attr_default :: "element \<Rightarrow> string \<Rightarrow> string \<Rightarrow> string" where
  "get_attr_default e k d = (case map_of (attrib e) k of Some v \<Rightarrow> v | None \<Rightarrow> d)"

text \<open>\<open>elem.text if elem is not None and elem.text else ""\<close>.\<close>

definition text_or_empty :: "element option \<Rightarrow> string" where
  "text_or_empty eo =
     (case eo of
        None \<Rightarrow> []
      | Some e \<Rightarrow> (case elem_text e of None \<Rightarrow> [] | Some t \<Rightarrow> t))"

text \<open>The truth value of an attribute that may be absent, and \<open>a or b\<close> on strings.\<close>

definition truthy :: "string option \<Rightarrow> bool" where
  "truthy so = (case so of None \<Rightarrow> False | Some s \<Rightarrow> s \<noteq> [])"

definition py_or :: "string \<Rightarrow> string \<Rightarrow> string" where
  "py_or a b = (if a \<noteq> [] then a else b)"

text \<open>\<open>f"{v}"\<close> for an attribute that may be \<open>None\<close>.\<close>

definition str_opt :: "string option \<Rightarrow> string" where
  "str_opt so = (case so of None \<Rightarrow> ''None'' | Some s \<Rightarrow> s)"

text \<open>
  \<open>int(s)\<close> on a string: surrounding whitespace is dropped, then an optional sign and
  decimal digits, where single underscores may separate digits. \<open>None\<close> stands for
  \<open>ValueError\<close>.
\<close>

definition is_digit :: "char \<Rightarrow> bool" where
  "is_digit c = (48 \<le> (of_char c :: nat) \<and> (of_char c :: nat) \<le> 57)"

fun digits_ok :: "string \<Rightarrow> bool" where
  "digits_ok [] = False"
| "digits_ok [c] = is_digit c"
| "digits_ok (c # d # cs) =
     (is_digit c \<and> (if d = CHR ''_'' then digits_ok cs else digits_ok (d # cs)))"

definition digits_value :: "string \<Rightarrow> int" where
  "digits_value s =
     foldl (\<lambda>acc c. if c = CHR ''_'' then acc else 10 * acc + (int (of_char c) - 48)) 0 s"

definition py_int :: "string \<Rightarrow> int option" where
  "py_int s =
     (let t = py_strip s;
          negative = (case t of [] \<Rightarrow> False | c # _ \<Rightarrow> c = CHR ''-'');
          signed = (case t of [] \<Rightarrow> False | c # _ \<Rightarrow> c = CHR ''-'' \<or> c = CHR ''+'');
          body = (if signed then tl t else t)
      in if digits_ok body
         then Some (if negative then - digits_value body else digits_value body)
         else None)"

text \<open>The resolution lookup of one game: the display declaration first, then the video
  declaration when the display did not give both a width and a height. The result is
  \<open>(width, height, rotation, screen_type)\<close>.\<close>

definition lookup_display ::
  "element \<Rightarrow> string option \<times> string option \<times> string \<times> string" where
  "lookup_display game =
     (case find_desc game ''display'' of
        None \<Rightarrow> (None, None, [], [])
      | Some display \<Rightarrow>
          (get_attr display ''width'', get_attr display ''height'',
           py_or (get_attr_default display ''rotate'' []) (get_attr_default display ''orientation'' []),
           get_attr_default display ''type'' []))"

definition lookup_resolution ::
  "element \<Rightarrow> string option \<times> string option \<times> string \<times> string" where
  "lookup_resolution game =
     (case lookup_display game of
        (width, height, rotation, screen_type) \<Rightarrow>
          if \<not> truthy width \<or> \<not> truthy height
          then (case find_desc game ''video'' of
                  None \<Rightarrow> (width, height, rotation, screen_type)
                | Some video \<Rightarrow>
                    (get_attr video ''width'', get_attr video ''height'',
                     py_or (get_attr_default video ''rotate'' [])
                       (get_attr_default video ''orientation'' []),
                     py_or (get_attr_default video ''screen'' [])
                       (get_attr_default video ''type'' [])))
          else (width, height, rotation, screen_type))"

text \<open>The body of the loop of \<open>parse_dat_file\<close>, for one \<open>game\<close> element; the state is
  the manager and the log.\<close>

definition parse_game :: "manager \<times> string list \<Rightarrow> element \<Rightarrow> manager \<times> string list" where
  "parse_game st game =
     (case get_attr game ''name'' of
        None \<Rightarrow> st
      | Some game_name \<Rightarrow>
          if game_name = [] then st
          else
            (case lookup_resolution game of
               (width, height, rotation, screen_type) \<Rightarrow>
                 if truthy width \<and> truthy height
                 then
                   (case py_int (the width) of
                      None \<Rightarrow>
                        (fst st, snd st @ [''Warning: Invalid resolution for '' @ game_name
                           @ '': '' @ str_opt width @ ''x'' @ str_opt height])
                    | Some w \<Rightarrow>
                        (case py_int (the height) of
                           None \<Rightarrow>
                             (fst st, snd st @ [''Warning: Invalid resolution for '' @ game_name
                                @ '': '' @ str_opt width @ ''x'' @ str_opt height])
                         | Some h \<Rightarrow>
                             ((fst st)\<lparr>
                                 game_resolutions :=
                                   AList.update game_name (w, h) (game_resolutions (fst st)),
                                 game_info :=
                                   AList.update game_name
                                     \<lparr>gi_name = game_name, gi_width = w, gi_height = h,
                                      gi_description = text_or_empty (find_child game ''description''),
                                      gi_year = text_or_empty (find_child game ''year''),
                                      gi_manufacturer =
                                        text_or_empty (find_child game ''manufacturer''),
                                      gi_cloneof = get_attr_default game ''cloneof'' [],
                                      gi_rotate = rotation, gi_screen_type = screen_type\<rparr>
                                     (game_info (fst st))\<rparr>,
                              snd st)))
                 else st))"

text \<open>\<open>parse_dat_file\<close>; \<open>parsed\<close> is what \<open>ET.parse(self.dat_file)\<close> gives.\<close>

definition parse_dat_file ::
  "manager \<Rightarrow> world \<Rightarrow> error + element \<Rightarrow> error + (manager \<times> world)" where
  "parse_dat_file m w parsed =
     (case dat_file m of
        None \<Rightarrow> Inl ValueError
      | Some file \<Rightarrow>
          (case parsed of
             Inl e \<Rightarrow> Inl e
           | Inr root \<Rightarrow>
               (case foldl parse_game (m, logs w @ [''Parsing DAT file: '' @ file])
                       (findall_desc root ''game'') of
                  (m', lines) \<Rightarrow>
                    let found = length (game_resolutions m');
                        lines1 = lines @ [''Found '' @ str_nat found
                                            @ '' games with resolution data''];
                        total_games = length (findall_desc root ''game'')
                                        + length (findall_desc root ''machine'');
                        lines2 =
                          (if found = 0 \<and> 0 < total_games
                           then lines1 @
                             [''Warning: Found '' @ str_nat total_games
                                @ '' game entries but none have resolution data.'',
                              ''This DAT file may not contain display/video information.'',
                              ''Please use a DAT file that includes resolution data ''
                                @ ''(e.g., MAME XML, FinalBurn Neo DAT with display tags).'']
                           else lines1)
                    in Inr (m', w\<lparr>logs := lines2\<rparr>))))"

section \<open>Notions used in the statements\<close>

text \<open>A key and a value that a line of the file can hold and give back: free of line
  terminators, equal to their stripped form, the key without \<open>=\<close> and not starting a
  comment.\<close>

definition storable_key :: "string \<Rightarrow> bool" where
  "storable_key k =
     (py_strip k = k \<and> \<not> startswith_hash k \<and> CHR ''='' \<notin> set k \<and> LF \<notin> set k \<and> CR \<notin> set k)"

definition storable_value :: "string \<Rightarrow> bool" where
  "storable_value v = (py_strip v = v \<and> LF \<notin> set v \<and> CR \<notin> set v)"

definition storable :: "config \<Rightarrow> bool" where
  "storable config = list_all (\<lambda>(k, v). storable_key k \<and> storable_value v) config"

text \<open>The items \<open>write_config_file\<close> writes, in the order it writes them.\<close>

definition written_items :: "config \<Rightarrow> config" where
  "written_items config =
     map (\<lambda>k. (k, the (map_of config k))) (filter (\<lambda>k. map_of config k \<noteq> None) viewport_order)
     @ filter (\<lambda>(k, v). k \<notin> set viewport_order) (sort config)"

text \<open>The conditions on a key and on a value under which a record is expected to come
  back unchanged from a write followed by a read, with the line feed as the only newline.\<close>

definition claimed_key :: "string \<Rightarrow> bool" where
  "claimed_key k = (\<not> startswith_hash k \<and> CHR ''='' \<notin> set k \<and> LF \<notin> set k \<and> py_strip k = k)"

definition claimed_value :: "string \<Rightarrow> bool" where
  "claimed_value v = (LF \<notin> set v \<and> py_strip v = v)"

text \<open>The file format as the specification words it: the viewport keys that are present
  first, in their fixed order, then the other keys in lexicographic order, one line
  \<open>key = value\<close> for each.\<close>

definition spec_key_order :: "config \<Rightarrow> string list" where
  "spec_key_order config =
     filter (\<lambda>k. k \<in> fst ` set config)
       [''aspect_ratio_index'', ''custom_viewport_x'', ''custom_viewport_y'',
        ''custom_viewport_width'', ''custom_viewport_height'']
     @ sorted_list_of_set
         (fst ` set config
            - {''aspect_ratio_index'', ''custom_viewport_x'', ''custom_viewport_y'',
               ''custom_viewport_width'', ''custom_viewport_height''})"

definition spec_serialize :: "config \<Rightarrow> string" where
  "spec_serialize config =
     concat (map (\<lambda>k. k @ '' = '' @ the (map_of config k) @ [LF]) (spec_key_order config))"

text \<open>A manager and a world for concrete instances of the statements.\<close>

definition example_manager :: manager where
  "example_manager =
     \<lparr>dat_file = Some ''catalog.dat'', rom_folder = Some ''roms'', export_folder = None,
      override_width = Some 1920, override_height = Some 1080,
      override_x = None, override_y = None,
      game_resolutions = [(''pacman'', (320, 240))], game_info = []\<rparr>"

definition example_world :: world where
  "example_world =
     \<lparr>fs = [(''roms'',
              [(''pacman.zip'', ''PK''),
               (''pacman.zip.cfg'', ''# settings'' @ [LF] @ ''video_smooth = true'' @ [LF]
                  @ ''custom_viewport_x = '' @ quoted ''7'' @ [LF])])],
      logs = [], progress = []\<rparr>"

text \<open>A world whose target holds viewport keys only.\<close>

definition viewport_only_world :: world where
  "viewport_only_world =
     \<lparr>fs = [(''roms'',
              [(''pacman.zip.cfg'', ''aspect_ratio_index = '' @ quoted ''23'' @ [LF]
                  @ ''custom_viewport_width = '' @ quoted ''320'' @ [LF])])],
      logs = [], progress = []\<rparr>"

text \<open>A world after overrides were applied: one target as \<open>update_rom_config\<close> writes
  it, one holding position keys only.\<close>

definition override_world :: world where
  "override_world =
     \<lparr>fs = [(''roms'',
              [(''pacman.zip.cfg'',
                ''aspect_ratio_index = '' @ quoted ''23'' @ [LF]
                  @ ''custom_viewport_x = '' @ quoted ''0'' @ [LF]
                  @ ''custom_viewport_y = '' @ quoted ''0'' @ [LF]
                  @ ''custom_viewport_width = '' @ quoted ''320'' @ [LF]
                  @ ''custom_viewport_height = '' @ quoted ''240'' @ [LF]),
               (''galaga.zip.cfg'',
                ''custom_viewport_x = '' @ quoted ''8'' @ [LF]
                  @ ''custom_viewport_y = '' @ quoted ''16'' @ [LF])])],
      logs = [], progress = []\<rparr>"

text \<open>The override written in a target: the record read from the file of the ROM holds
  the width, the height, and the x and y given, or \<open>0\<close> where x or y is \<open>None\<close>, each
  between double quotes. \<open>effective\<close> is the override where there is one, the catalog
  value otherwise.\<close>

definition written_override ::
  "filesystem \<Rightarrow> path \<Rightarrow> string \<Rightarrow> int \<Rightarrow> int \<Rightarrow> int option \<Rightarrow> int option \<Rightarrow> bool" where
  "written_override files d rom width height x y =
     (map_of (read_config_file files d (rom @ ''.zip.cfg'')) ''custom_viewport_width''
        = Some (quoted (py_str_int width))
      \<and> map_of (read_config_file files d (rom @ ''.zip.cfg'')) ''custom_viewport_height''
        = Some (quoted (py_str_int height))
      \<and> map_of (read_config_file files d (rom @ ''.zip.cfg'')) ''custom_viewport_x''
        = Some (quoted (case x of Some v \<Rightarrow> py_str_int v | None \<Rightarrow> ''0''))
      \<and> map_of (read_config_file files d (rom @ ''.zip.cfg'')) ''custom_viewport_y''
        = Some (quoted (case y of Some v \<Rightarrow> py_str_int v | None \<Rightarrow> ''0'')))"

definition effective :: "int option \<Rightarrow> int \<Rightarrow> int" where
  "effective override catalog = (case override of Some v \<Rightarrow> v | None \<Rightarrow> catalog)"

text \<open>The invariant of the loop of \<open>process_roms\<close>: every ROM handled so far that has a
  catalog entry has its override written.\<close>

definition override_written_for :: "manager \<Rightarrow> filesystem \<Rightarrow> path \<Rightarrow> string \<Rightarrow> bool" where
  "override_written_for m files d rom =
     (case map_of (game_resolutions m) rom of
        None \<Rightarrow> True
      | Some (dat_width, dat_height) \<Rightarrow>
          written_override files d rom
            (effective (override_width m) dat_width) (effective (override_height m) dat_height)
            (override_x m) (override_y m))"

text \<open>The warning logged for a game whose resolution does not parse, three game
  elements (a width that is not a number, an empty width, a valid resolution) and a
  manager that has parsed nothing yet.\<close>

definition invalid_warning :: "string \<Rightarrow> string \<Rightarrow> string \<Rightarrow> string" where
  "invalid_warning game_name width height =
     ''Warning: Invalid resolution for '' @ game_name @ '': '' @ width @ ''x'' @ height"

definition invalid_game :: element where
  "invalid_game =
     Element ''game'' [(''name'', ''dkong'')] None
       [Element ''description'' [] (Some ''Donkey Kong'') [],
        Element ''display'' [(''width'', ''abc''), (''height'', ''240'')] None []]"

definition empty_width_game :: element where
  "empty_width_game =
     Element ''game'' [(''name'', ''pacman'')] None
       [Element ''display'' [(''width'', []), (''height'', ''288'')] None []]"

definition valid_game :: element where
  "valid_game =
     Element ''game'' [(''name'', ''galaga'')] None
       [Element ''display'' [(''width'', ''224''), (''height'', ''288'')] None []]"

definition fresh_manager :: manager where
  "fresh_manager = example_manager\<lparr>game_resolutions := [], game_info := []\<rparr>"

section \<open>Properties of the file format\<close>

lemma isspace_space [simp]: "py_isspace CHR '' ''" "py_isspace LF" "py_isspace CR" "\<not> py_isspace CHR ''=''"
  by (simp_all add: py_isspace_def LF_def CR_def)

lemma py_strip_pad:
  assumes l: "\<forall>c\<in>set l. py_isspace c" and r: "\<forall>c\<in>set r. py_isspace c"
    and m: "m \<noteq> []" "\<not> py_isspace (hd m)" "\<not> py_isspace (last m)"
  shows "py_strip (l @ m @ r) = m"
proof -
  from m obtain a m' where ma: "m = a # m'" "\<not> py_isspace a"
    by (cases m) auto
  from m obtain b m'' where mb: "rev m = b # m''" "\<not> py_isspace b"
    by (cases "rev m") (auto simp: last_rev hd_rev)
  have "dropWhile py_isspace (l @ m @ r) = m @ r"
    using l ma by (simp add: dropWhile_append2)
  moreover have "dropWhile py_isspace (rev r @ rev m) = dropWhile py_isspace (rev m)"
    by (rule dropWhile_append2) (use r in auto)
  moreover have "dropWhile py_isspace (rev m) = rev m"
    using mb by simp
  ultimately show ?thesis
    by (simp add: py_strip_def)
qed

lemma py_strip_spaces:
  assumes "\<forall>c\<in>set s. py_isspace c"
  shows "py_strip s = []"
proof -
  have h: "dropWhile py_isspace s = []"
    using assms by simp
  show ?thesis
    unfolding py_strip_def h by simp
qed

lemma py_strip_fixD:
  assumes "py_strip s = s" "s \<noteq> []"
  shows "\<not> py_isspace (hd s)" "\<not> py_isspace (last s)"
proof -
  have len: "length (py_strip s) = length s" using assms by simp
  have le1: "length (dropWhile py_isspace (rev (dropWhile py_isspace s))) \<le> length (dropWhile py_isspace s)"
    by (metis length_dropWhile_le length_rev)
  have le2: "length (dropWhile py_isspace s) \<le> length s"
    by (rule length_dropWhile_le)
  have eq1: "length (dropWhile py_isspace s) = length s"
    using len le1 le2 by (simp add: py_strip_def)
  then have d1: "dropWhile py_isspace s = s"
    by (metis append_eq_conv_conj length_append takeWhile_dropWhile_id add_cancel_left_left length_0_conv append_Nil)
  show "\<not> py_isspace (hd s)"
    using d1 assms(2) hd_dropWhile [of py_isspace s] by simp
  have "length (dropWhile py_isspace (rev s)) = length (rev s)"
    using len d1 by (simp add: py_strip_def)
  then have d2: "dropWhile py_isspace (rev s) = rev s"
    by (metis append_eq_conv_conj length_append takeWhile_dropWhile_id add_cancel_left_left length_0_conv append_Nil)
  show "\<not> py_isspace (last s)"
    using d2 assms(2) hd_dropWhile [of py_isspace "rev s"] by (simp add: hd_rev)
qed

lemma LF_neq_CR [simp]: "LF \<noteq> CR" "CR \<noteq> LF"
  by (simp_all add: LF_def CR_def)

lemma text_lines_acc_line:
  "LF \<notin> set body \<Longrightarrow> CR \<notin> set body \<Longrightarrow>
   text_lines_acc cur (body @ LF # rest) = (cur @ body @ [LF]) # text_lines_acc [] rest"
proof (induction body arbitrary: cur)
  case Nil
  show ?case by (cases rest) simp_all
next
  case (Cons b bs)
  obtain d cs where dc: "bs @ LF # rest = d # cs"
    by (cases "bs @ LF # rest") simp_all
  have "text_lines_acc cur (b # bs @ LF # rest) = text_lines_acc (cur @ [b]) (bs @ LF # rest)"
    using Cons.prems unfolding dc by auto
  then show ?case
    using Cons by simp
qed

lemma text_lines_config_lines:
  "list_all (\<lambda>(k, v). LF \<notin> set k \<and> CR \<notin> set k \<and> LF \<notin> set v \<and> CR \<notin> set v) es \<Longrightarrow>
   text_lines (concat (map (\<lambda>(k, v). config_line k v) es)) = map (\<lambda>(k, v). config_line k v) es"
proof (induction es)
  case Nil
  show ?case by (simp add: text_lines_def)
next
  case (Cons e es)
  obtain k v where e: "e = (k, v)" by (cases e)
  have body: "LF \<notin> set (k @ '' = '' @ v)" "CR \<notin> set (k @ '' = '' @ v)"
    using Cons.prems by (auto simp: e LF_def CR_def)
  have "text_lines_acc [] ((k @ '' = '' @ v) @ LF # concat (map (\<lambda>(k, v). config_line k v) es))
        = ([] @ (k @ '' = '' @ v) @ [LF]) # text_lines_acc [] (concat (map (\<lambda>(k, v). config_line k v) es))"
    using body by (rule text_lines_acc_line)
  then show ?case
    using Cons by (simp add: text_lines_def e config_line_def)
qed

lemma foldl_write_other_item:
  "foldl write_other_item out xs =
     out @ concat (map (\<lambda>(k, v). config_line k v) (filter (\<lambda>(k, v). k \<notin> set viewport_order) xs))"
  by (induction xs arbitrary: out) (auto simp: write_other_item_def)

lemma foldl_write_viewport_key:
  "foldl (write_viewport_key config) out ks =
     out @ concat (map (\<lambda>(k, v). config_line k v)
        (map (\<lambda>k. (k, the (map_of config k))) (filter (\<lambda>k. map_of config k \<noteq> None) ks)))"
  by (induction ks arbitrary: out) (auto simp: write_viewport_key_def)

lemma write_config_text_items:
  "write_config_text config = concat (map (\<lambda>(k, v). config_line k v) (written_items config))"
  by (simp add: write_config_text_def written_items_def foldl_write_other_item
      foldl_write_viewport_key)

lemma split_eq_at:
  "CHR ''='' \<notin> set a \<Longrightarrow> split_eq (a @ CHR ''='' # b) = (a, b)"
  by (induction a) (auto simp: split_eq_def)

lemma startswith_hash_append:
  "a \<noteq> [] \<Longrightarrow> startswith_hash (a @ b) = startswith_hash a"
  by (cases a) simp_all

lemma read_line_config_line:
  assumes k: "storable_key k" and v: "storable_value v"
  shows "read_line config (config_line k v) = AList.update k v config"
proof -
  let ?a = "if k = [] then [] else k @ '' ''"
  let ?b = "if v = [] then [] else '' '' @ v"
  let ?l = "if k = [] then '' '' else []"
  let ?r = "if v = [] then '' '' @ [LF] else [LF]"
  let ?m = "?a @ CHR ''='' # ?b"
  have line: "config_line k v = ?l @ ?m @ ?r"
    by (simp add: config_line_def)
  have kk: "k \<noteq> [] \<Longrightarrow> \<not> py_isspace (hd k) \<and> \<not> py_isspace (last k)"
    using k py_strip_fixD [of k] by (simp add: storable_key_def)
  have vv: "v \<noteq> [] \<Longrightarrow> \<not> py_isspace (hd v) \<and> \<not> py_isspace (last v)"
    using v py_strip_fixD [of v] by (simp add: storable_value_def)
  have "py_strip (?l @ ?m @ ?r) = ?m"
    by (rule py_strip_pad) (use kk vv in \<open>auto simp: hd_append\<close>)
  then have strip: "py_strip (config_line k v) = ?m"
    by (simp only: line)
  have noeq: "CHR ''='' \<notin> set ?a"
    using k by (simp add: storable_key_def)
  have split: "split_eq ?m = (?a, ?b)"
    using noeq by (rule split_eq_at)
  have hash: "\<not> startswith_hash ?m"
    using k by (cases k) (simp_all add: storable_key_def)
  have sa: "py_strip ?a = k"
  proof (cases "k = []")
    case True
    then show ?thesis by (simp add: py_strip_def)
  next
    case False
    have "py_strip ([] @ k @ '' '') = k"
      by (rule py_strip_pad) (use False kk in auto)
    then show ?thesis using False by simp
  qed
  have sb: "py_strip ?b = v"
  proof (cases "v = []")
    case True
    then show ?thesis by (simp add: py_strip_def)
  next
    case False
    have "py_strip ('' '' @ v @ []) = v"
      by (rule py_strip_pad) (use False vv in auto)
    then show ?thesis using False by simp
  qed
  have mem: "CHR ''='' \<in> set ?m"
    by simp
  show ?thesis
    unfolding read_line_def strip Let_def
    using mem hash split sa sb by (simp only: if_True simp_thms prod.case)
qed

lemma foldl_read_line_config_lines:
  "storable es \<Longrightarrow>
   foldl read_line config (map (\<lambda>(k, v). config_line k v) es)
     = foldl (\<lambda>c (k, v). AList.update k v c) config es"
  by (induction es arbitrary: config) (auto simp: storable_def read_line_config_line)

lemma map_of_foldl_update:
  "map_of (foldl (\<lambda>c (k, v). AList.update k v c) config es) = map_of config ++ map_of (rev es)"
  by (induction es arbitrary: config) (auto simp: update_conv' map_add_def fun_eq_iff split: option.splits)

lemma distinct_foldl_update:
  "distinct (map fst config) \<Longrightarrow>
   distinct (map fst (foldl (\<lambda>c (k, v). AList.update k v c) config es))"
  by (induction es arbitrary: config) (auto simp: distinct_update)

lemma py_strip_Nil [simp]: "py_strip [] = []"
  by (simp add: py_strip_def)

lemma set_py_strip: "set (py_strip s) \<subseteq> set s"
proof -
  have "set (dropWhile py_isspace (rev (dropWhile py_isspace s))) \<subseteq> set (rev (dropWhile py_isspace s))"
    by (rule set_dropWhileD [THEN subsetI])
  also have "\<dots> \<subseteq> set s"
    using set_dropWhileD [of _ py_isspace s] by auto
  finally show ?thesis
    by (simp add: py_strip_def)
qed

lemma py_strip_shape:
  "py_strip s = [] \<or> (\<not> py_isspace (hd (py_strip s)) \<and> \<not> py_isspace (last (py_strip s)))"
proof (cases "dropWhile py_isspace s = []")
  case True
  then have "\<forall>c\<in>set s. py_isspace c" by simp
  then have "py_strip s = []" by (rule py_strip_spaces)
  then show ?thesis by simp
next
  case False
  let ?d = "dropWhile py_isspace s"
  let ?e = "dropWhile py_isspace (rev ?d)"
  obtain a d' where d: "?d = a # d'" using False by (cases ?d) auto
  have a: "\<not> py_isspace a"
    using hd_dropWhile [OF False] d by simp
  have e: "?e = dropWhile py_isspace (rev d') @ [a]"
    unfolding d using a by (simp add: dropWhile_append3)
  then have ne: "?e \<noteq> []" by simp
  have "\<not> py_isspace (hd ?e)"
    using hd_dropWhile [of py_isspace "rev ?d"] ne by simp
  moreover have "last ?e = a" using e by simp
  ultimately show ?thesis
    using a ne by (simp add: py_strip_def hd_rev last_rev)
qed

lemma py_strip_idem [simp]: "py_strip (py_strip s) = py_strip s"
proof (cases "py_strip s = []")
  case True
  then show ?thesis by simp
next
  case False
  have "py_strip ([] @ py_strip s @ []) = py_strip s"
    by (rule py_strip_pad) (use False py_strip_shape [of s] in auto)
  then show ?thesis by simp
qed

lemma py_strip_snoc_space:
  assumes "py_isspace c"
  shows "py_strip (s @ [c]) = py_strip s"
proof (cases "dropWhile py_isspace s = []")
  case True
  then have "\<forall>x\<in>set (s @ [c]). py_isspace x" using assms by simp
  then have "py_strip (s @ [c]) = []" by (rule py_strip_spaces)
  moreover have "py_strip s = []" by (rule py_strip_spaces) (use True in simp)
  ultimately show ?thesis by simp
next
  case False
  then obtain x where "x \<in> set s" "\<not> py_isspace x" by auto
  then have "dropWhile py_isspace (s @ [c]) = dropWhile py_isspace s @ [c]"
    by (simp add: dropWhile_append1)
  then show ?thesis
    using assms by (simp add: py_strip_def)
qed

lemma py_strip_head:
  assumes "\<not> py_isspace a"
  shows "\<exists>u. py_strip (a # t) = a # u"
proof -
  have "dropWhile py_isspace (rev t @ [a]) = dropWhile py_isspace (rev t) @ [a]"
    using assms by (simp add: dropWhile_append3)
  then show ?thesis
    using assms by (simp add: py_strip_def)
qed

text \<open>Lines handed out by the reader hold no line terminator but a final LF.\<close>

lemma text_lines_acc_shape:
  "LF \<notin> set cur \<Longrightarrow> CR \<notin> set cur \<Longrightarrow> l \<in> set (text_lines_acc cur s) \<Longrightarrow>
   \<exists>body. (l = body \<or> l = body @ [LF]) \<and> LF \<notin> set body \<and> CR \<notin> set body"
proof (induction cur s rule: text_lines_acc.induct)
  case (1 cur)
  then show ?case by (auto split: if_splits)
next
  case (2 cur c)
  then show ?case by (auto split: if_splits)
next
  case (3 cur c d cs)
  show ?case
  proof (cases "c = CR \<and> d = LF")
    case True
    then show ?thesis using 3 by auto
  next
    case nt: False
    show ?thesis
    proof (cases "c = LF \<or> c = CR")
      case True
      then show ?thesis using 3 nt by auto
    next
      case False
      then show ?thesis using 3 nt by auto
    qed
  qed
qed

lemma py_strip_line_clean:
  assumes "l \<in> set (text_lines s)"
  shows "LF \<notin> set (py_strip l) \<and> CR \<notin> set (py_strip l)"
proof -
  obtain body where b: "l = body \<or> l = body @ [LF]" "LF \<notin> set body" "CR \<notin> set body"
    using text_lines_acc_shape [of "[]" l s] assms by (auto simp: text_lines_def)
  have "py_strip l = py_strip body"
    using b(1) by (auto simp: py_strip_snoc_space)
  then show ?thesis
    using b set_py_strip [of body] by auto
qed

lemma storable_update:
  "storable config \<Longrightarrow> storable_key k \<Longrightarrow> storable_value v \<Longrightarrow>
   storable (AList.update k v config)"
  by (induction config) (auto simp: storable_def)

lemma storable_delete: "storable config \<Longrightarrow> storable (AList.delete k config)"
  by (induction config) (auto simp: storable_def)

lemma read_line_storable:
  assumes c: "storable config" and l: "LF \<notin> set (py_strip l0)" "CR \<notin> set (py_strip l0)"
  shows "storable (read_line config l0)"
proof (cases "CHR ''='' \<in> set (py_strip l0) \<and> \<not> startswith_hash (py_strip l0)")
  case False
  then show ?thesis using c by (auto simp: read_line_def Let_def)
next
  case True
  let ?line = "py_strip l0"
  let ?k0 = "takeWhile (\<lambda>c. c \<noteq> CHR ''='') ?line"
  let ?v0 = "drop 1 (dropWhile (\<lambda>c. c \<noteq> CHR ''='') ?line)"
  have rl: "read_line config l0 = AList.update (py_strip ?k0) (py_strip ?v0) config"
    using True by (simp add: read_line_def Let_def split_eq_def)
  have k0sub: "set ?k0 \<subseteq> set ?line"
    using set_takeWhileD [of _ "\<lambda>c. c \<noteq> CHR ''=''" ?line] by auto
  have v0sub: "set ?v0 \<subseteq> set ?line"
    using set_dropWhileD [of _ "\<lambda>c. c \<noteq> CHR ''=''" ?line]
      in_set_dropD [of _ 1 "dropWhile (\<lambda>c. c \<noteq> CHR ''='') ?line"] by auto
  have k0eq: "CHR ''='' \<notin> set ?k0"
    using set_takeWhileD [of "CHR ''=''" "\<lambda>c. c \<noteq> CHR ''=''" ?line] by auto
  have ksub: "set (py_strip ?k0) \<subseteq> set ?k0" by (rule set_py_strip)
  have vsub: "set (py_strip ?v0) \<subseteq> set ?v0" by (rule set_py_strip)
  have hash: "\<not> startswith_hash (py_strip ?k0)"
  proof (cases ?k0)
    case Nil
    then show ?thesis by simp
  next
    case (Cons a t)
    obtain rest where line: "?line = a # rest"
      using Cons by (cases ?line) (auto split: if_splits)
    have "\<not> py_isspace a"
      using py_strip_shape [of l0] line by auto
    then obtain u where "py_strip (a # t) = a # u"
      using py_strip_head by blast
    moreover have "a \<noteq> CHR ''#''"
      using True line by simp
    ultimately show ?thesis
      unfolding Cons by simp
  qed
  have "storable_key (py_strip ?k0)"
    unfolding storable_key_def using hash k0eq ksub k0sub l by auto
  moreover have "storable_value (py_strip ?v0)"
    unfolding storable_value_def using vsub v0sub l by auto
  ultimately show ?thesis
    unfolding rl using c by (rule storable_update [rotated])
qed

lemma foldl_read_line_storable:
  "storable config \<Longrightarrow> \<forall>l\<in>set ls. LF \<notin> set (py_strip l) \<and> CR \<notin> set (py_strip l) \<Longrightarrow>
   storable (foldl read_line config ls)"
  by (induction ls arbitrary: config) (auto simp: read_line_storable)

lemma read_config_text_storable: "storable (read_config_text s)"
  unfolding read_config_text_def
  by (rule foldl_read_line_storable) (auto simp: storable_def py_strip_line_clean)

lemma read_line_distinct:
  "distinct (map fst config) \<Longrightarrow> distinct (map fst (read_line config l))"
  by (auto simp: read_line_def Let_def distinct_update split: prod.splits)

lemma foldl_read_line_distinct:
  "distinct (map fst config) \<Longrightarrow> distinct (map fst (foldl read_line config ls))"
  by (induction ls arbitrary: config) (auto simp: read_line_distinct)

lemma read_config_text_distinct: "distinct (map fst (read_config_text s))"
  unfolding read_config_text_def by (rule foldl_read_line_distinct) simp

lemma distinct_viewport_order: "distinct viewport_order"
  by (simp add: viewport_order_def)

lemma distinct_keys_sort:
  "distinct (map fst (sort config)) = distinct (map fst (config :: config))"
  by (simp add: distinct_map)

lemma set_written_items:
  assumes "distinct (map fst config)"
  shows "set (written_items config) = set config"
proof -
  have "(k, v) \<in> set (written_items config) \<longleftrightarrow> (k, v) \<in> set config" for k v
  proof (cases "k \<in> set viewport_order")
    case True
    have "(k, v) \<in> set config \<longleftrightarrow> map_of config k = Some v"
      using assms by simp
    then show ?thesis
      using True by (auto simp: written_items_def)
  next
    case False
    then show ?thesis
      by (auto simp: written_items_def)
  qed
  then show ?thesis by auto
qed

lemma distinct_written_items:
  assumes "distinct (map fst config)"
  shows "distinct (map fst (written_items config))"
proof -
  have 1: "distinct (filter (\<lambda>k. map_of config k \<noteq> None) viewport_order)"
    using distinct_viewport_order by simp
  have 2: "distinct (map fst (filter (\<lambda>(k, v). k \<notin> set viewport_order) (sort config)))"
    using assms distinct_keys_sort [of config] by (simp add: distinct_map_filter)
  have 3: "map fst (map (\<lambda>k. (k, the (map_of config k))) ks) = ks" for ks
    by (induction ks) auto
  show ?thesis
    unfolding written_items_def using 1 2 by (auto simp: 3 o_def)
qed

lemma storable_set_mono:
  "storable config \<Longrightarrow> set es \<subseteq> set config \<Longrightarrow> storable es"
  by (auto simp: storable_def list_all_iff)

lemma read_write_roundtrip:
  assumes d: "distinct (map fst config)" and s: "storable config"
  shows "map_of (read_config_text (write_config_text config)) = map_of config"
proof -
  let ?es = "written_items config"
  have se: "storable ?es"
    using s set_written_items [OF d] by (auto intro: storable_set_mono)
  have clean: "list_all (\<lambda>(k, v). LF \<notin> set k \<and> CR \<notin> set k \<and> LF \<notin> set v \<and> CR \<notin> set v) ?es"
    using se by (auto simp: storable_def list_all_iff storable_key_def storable_value_def)
  have "read_config_text (write_config_text config)
          = foldl (\<lambda>c (k, v). AList.update k v c) [] ?es"
    by (simp add: read_config_text_def write_config_text_items
        text_lines_config_lines [OF clean] foldl_read_line_config_lines [OF se])
  then have "map_of (read_config_text (write_config_text config)) = map_of (rev ?es)"
    by (simp add: map_of_foldl_update)
  also have "\<dots> = map_of config"
    using distinct_written_items [OF d] d set_written_items [OF d]
    by (subst map_of_inject_set) (auto simp: rev_map [symmetric])
  finally show ?thesis .
qed

lemma write_config_text_cong:
  assumes "distinct (map fst a)" "distinct (map fst b)" "map_of a = map_of b"
  shows "write_config_text a = write_config_text b"
proof -
  have st: "set a = set b"
    using assms map_of_inject_set by blast
  have da: "distinct a" "distinct b"
    using assms by (auto simp: distinct_map)
  have "sort a = sort b"
    by (rule sorted_distinct_set_unique) (use st da in auto)
  then show ?thesis
    using assms(3) by (simp add: write_config_text_def write_viewport_key_def [abs_def])
qed

section \<open>Files\<close>

lemma file_text_write_file:
  "write_file files d n content = Inr files' \<Longrightarrow> file_text files' d n = Some content"
  by (auto simp: write_file_def file_text_def update_conv' split: option.splits)

lemma write_file_succeeds:
  "dir_exists files d \<Longrightarrow> \<exists>files'. write_file files d n content = Inr files'"
  by (auto simp: write_file_def dir_exists_def split: option.splits)

section \<open>Writing a record and reading it back\<close>

text \<open>
  Claim C10, as amended. A record with distinct keys, whose keys equal their stripped
  form, do not start with \<open>#\<close> and hold no \<open>=\<close>, whose values equal their stripped
  form, and whose keys and values hold neither a line feed nor a carriage return, is
  written by \<open>write_config_file\<close> into an existing folder, and \<open>read_config_file\<close> on
  the file written gives a record with the same keys and the same values.
\<close>

theorem read_write_config_roundtrip:
  assumes "distinct (map fst config)" and "storable config" and "dir_exists files d"
  shows "\<exists>files'. write_config_file files d n config = Inr files'
           \<and> map_of (read_config_file files' d n) = map_of config"
proof -
  obtain files' where w: "write_config_file files d n config = Inr files'"
    using write_file_succeeds [OF assms(3)] unfolding write_config_file_def by blast
  then have "file_text files' d n = Some (write_config_text config)"
    unfolding write_config_file_def by (rule file_text_write_file)
  then have "map_of (read_config_file files' d n) = map_of config"
    using read_write_roundtrip [OF assms(1,2)] by (simp add: read_config_file_def)
  with w show ?thesis by blast
qed

theorem read_write_config_roundtrip_witness:
  "distinct (map fst [(''video_smooth'', quoted ''true''), (''custom_viewport_x'', quoted ''5''), (''Audio'', [])])
   \<and> storable [(''video_smooth'', quoted ''true''), (''custom_viewport_x'', quoted ''5''), (''Audio'', [])]
   \<and> dir_exists [(''roms'', [])] ''roms''
   \<and> (\<exists>files'. write_config_file [(''roms'', [])] ''roms'' ''game.zip.cfg''
          [(''video_smooth'', quoted ''true''), (''custom_viewport_x'', quoted ''5''), (''Audio'', [])] = Inr files'
        \<and> map_of (read_config_file files' ''roms'' ''game.zip.cfg'')
           = map_of [(''video_smooth'', quoted ''true''), (''custom_viewport_x'', quoted ''5''), (''Audio'', [])])"
  using read_write_config_roundtrip [of "[(''video_smooth'', quoted ''true''), (''custom_viewport_x'', quoted ''5''), (''Audio'', [])]" "[(''roms'', [])]" "''roms''" "''game.zip.cfg''"]
  by (simp add: storable_def storable_key_def storable_value_def quoted_def py_strip_def py_isspace_def LF_def CR_def dir_exists_def)

text \<open>
  Claim C10 as stated fails when a value holds a carriage return: the key \<open>k\<close> and the
  value \<open>a\rb\<close> meet the stated conditions, the file written is \<open>k = a\rb\n\<close>, and
  reading it back gives the value \<open>a\<close>, since the reader ends a line at the carriage
  return.
\<close>

theorem roundtrip_carriage_return_counterexample:
  "claimed_key ''k'' \<and> claimed_value (''a'' @ [CR] @ ''b'')
   \<and> write_config_file [(''roms'', [])] ''roms'' ''game.zip.cfg'' [(''k'', ''a'' @ [CR] @ ''b'')]
       = Inr [(''roms'', [(''game.zip.cfg'', ''k = a'' @ [CR] @ ''b'' @ [LF])])]
   \<and> read_config_file [(''roms'', [(''game.zip.cfg'', ''k = a'' @ [CR] @ ''b'' @ [LF])])] ''roms'' ''game.zip.cfg''
       = [(''k'', ''a'')]
   \<and> map_of [(''k'', ''a'')] \<noteq> map_of [(''k'', ''a'' @ [CR] @ ''b'')]"
  apply (intro conjI)
      apply (simp add: claimed_key_def py_strip_def py_isspace_def LF_def)
     apply (simp add: claimed_value_def py_strip_def py_isspace_def LF_def CR_def)
    apply (simp add: write_config_file_def write_file_def write_config_text_def write_other_item_def write_viewport_key_def viewport_order_def config_line_def)
   apply (simp add: read_config_file_def file_text_def read_config_text_def text_lines_def read_line_def split_eq_def py_strip_def py_isspace_def LF_def CR_def)
  apply (simp add: fun_eq_iff CR_def)
  done

section \<open>The text written\<close>

lemma sorted_map_fst:
  "sorted (xs :: ('a::linorder \<times> 'b::linorder) list) \<Longrightarrow> sorted (map fst xs)"
  by (induction xs) (auto simp: less_eq_prod_def)

lemma items_by_key:
  "\<forall>(k, v)\<in>set xs. map_of config k = Some v \<Longrightarrow>
   xs = map (\<lambda>k. (k, the (map_of config k))) (map fst xs)"
  by (induction xs) auto

lemma map_fst_filter_key:
  "map fst (filter (\<lambda>(k, v). P k) xs) = filter P (map fst xs)"
  by (induction xs) auto

lemma other_items_sorted:
  assumes d: "distinct (map fst (config :: config))"
  shows "filter (\<lambda>(k, v). k \<notin> set viewport_order) (sort config)
         = map (\<lambda>k. (k, the (map_of config k)))
             (sorted_list_of_set (fst ` set config - set viewport_order))"
proof -
  let ?os = "filter (\<lambda>(k, v). k \<notin> set viewport_order) (sort config)"
  have mf: "map fst ?os = filter (\<lambda>k. k \<notin> set viewport_order) (map fst (sort config))"
    by (rule map_fst_filter_key)
  have s: "sorted (map fst ?os)"
    unfolding mf using sorted_map_fst [OF sorted_sort [of config]] by (rule sorted_wrt_filter)
  have dd: "distinct (map fst ?os)"
    unfolding mf using d distinct_keys_sort [of config] by simp
  have st: "set (map fst ?os) = fst ` set config - set viewport_order"
    unfolding mf by auto
  have keys: "map fst ?os = sorted_list_of_set (fst ` set config - set viewport_order)"
    using sorted_list_of_set.idem_if_sorted_distinct [OF s dd] st by simp
  have "\<forall>(k, v)\<in>set ?os. map_of config k = Some v"
    using d by auto
  then have "?os = map (\<lambda>k. (k, the (map_of config k))) (map fst ?os)"
    by (rule items_by_key)
  then show ?thesis
    unfolding keys .
qed

lemma written_items_spec:
  assumes d: "distinct (map fst config)"
  shows "written_items config = map (\<lambda>k. (k, the (map_of config k))) (spec_key_order config)"
proof -
  have "(map_of config k \<noteq> None) = (k \<in> fst ` set config)" for k
    by (simp add: map_of_eq_None_iff)
  then have "filter (\<lambda>k. map_of config k \<noteq> None) viewport_order
             = filter (\<lambda>k. k \<in> fst ` set config) viewport_order"
    by simp
  moreover have "set viewport_order = {''aspect_ratio_index'', ''custom_viewport_x'', ''custom_viewport_y'',
               ''custom_viewport_width'', ''custom_viewport_height''}"
    by (simp add: viewport_order_def)
  ultimately show ?thesis
    unfolding written_items_def spec_key_order_def other_items_sorted [OF d]
    by (simp add: viewport_order_def)
qed

lemma write_config_text_spec:
  assumes "distinct (map fst config)"
  shows "write_config_text config = spec_serialize config"
  unfolding write_config_text_items written_items_spec [OF assms] spec_serialize_def
  by (simp add: o_def config_line_def)

text \<open>
  Claim C6. For a record (with distinct keys, as a dictionary has them) written into an
  existing folder, the file holds one line \<open>key = value\<close> per key: first the viewport
  keys that are present, in the order aspect_ratio_index, custom_viewport_x,
  custom_viewport_y, custom_viewport_width, custom_viewport_height, then every other key
  in lexicographic order.
\<close>

theorem write_config_file_format:
  assumes "distinct (map fst config)" and "dir_exists files d"
  shows "\<exists>files'. write_config_file files d n config = Inr files'
           \<and> file_text files' d n = Some (spec_serialize config)"
proof -
  obtain files' where w: "write_config_file files d n config = Inr files'"
    using write_file_succeeds [OF assms(2)] unfolding write_config_file_def by blast
  then have "file_text files' d n = Some (write_config_text config)"
    unfolding write_config_file_def by (rule file_text_write_file)
  with w show ?thesis
    by (simp add: write_config_text_spec [OF assms(1)])
qed

theorem write_config_file_format_witness:
  "distinct (map fst [(''video_smooth'', ''true''), (''custom_viewport_x'', quoted ''5''),
      (''Audio'', ''on''), (''aspect_ratio_index'', quoted ''23'')])
   \<and> dir_exists [(''roms'', [])] ''roms''
   \<and> spec_serialize [(''video_smooth'', ''true''), (''custom_viewport_x'', quoted ''5''),
        (''Audio'', ''on''), (''aspect_ratio_index'', quoted ''23'')]
      = ''aspect_ratio_index = '' @ quoted ''23'' @ [LF] @ ''custom_viewport_x = '' @ quoted ''5'' @ [LF]
        @ ''Audio = on'' @ [LF] @ ''video_smooth = true'' @ [LF]
   \<and> (\<exists>files'. write_config_file [(''roms'', [])] ''roms'' ''game.zip.cfg''
          [(''video_smooth'', ''true''), (''custom_viewport_x'', quoted ''5''),
           (''Audio'', ''on''), (''aspect_ratio_index'', quoted ''23'')] = Inr files'
        \<and> file_text files' ''roms'' ''game.zip.cfg''
           = Some (''aspect_ratio_index = '' @ quoted ''23'' @ [LF] @ ''custom_viewport_x = '' @ quoted ''5'' @ [LF]
        @ ''Audio = on'' @ [LF] @ ''video_smooth = true'' @ [LF]))"
proof -
  let ?c = "[(''video_smooth'', ''true''), (''custom_viewport_x'', quoted ''5''),
      (''Audio'', ''on''), (''aspect_ratio_index'', quoted ''23'')]"
  have d: "distinct (map fst ?c)" by simp
  have e: "dir_exists [(''roms'', [])] ''roms''" by (simp add: dir_exists_def)
  have s: "spec_serialize ?c = ''aspect_ratio_index = '' @ quoted ''23'' @ [LF] @ ''custom_viewport_x = '' @ quoted ''5'' @ [LF]
        @ ''Audio = on'' @ [LF] @ ''video_smooth = true'' @ [LF]"
    by (simp add: spec_serialize_def spec_key_order_def sorted_list_of_set_sort_remdups [of "[''video_smooth'', ''Audio'']", simplified] insert_Diff_if)
  show ?thesis
    using write_config_file_format [OF d e, of "''game.zip.cfg''"] d e s by simp
qed

section \<open>Applying an override to one target\<close>

lemma of_char_digit_char: "d < 10 \<Longrightarrow> (of_char (digit_char d) :: nat) = 48 + d"
  by (simp add: digit_char_def)

lemma nat_digits_chars:
  "c \<in> set (nat_digits n) \<Longrightarrow> 48 \<le> (of_char c :: nat) \<and> (of_char c :: nat) \<le> 57"
proof (induction n rule: nat_digits.induct)
  case (1 n)
  show ?case
  proof (cases "n < 10")
    case True
    then show ?thesis
      using 1(2) by (subst (asm) nat_digits.simps) (auto simp: of_char_digit_char)
  next
    case False
    have "n mod 10 < 10" by simp
    then have "(of_char (digit_char (n mod 10)) :: nat) = 48 + n mod 10"
      by (rule of_char_digit_char)
    then show ?thesis
      using 1 False by (subst (asm) (2) nat_digits.simps) auto
  qed
qed

lemma py_str_int_clean: "LF \<notin> set (py_str_int i) \<and> CR \<notin> set (py_str_int i)"
proof -
  have "c \<in> set (py_str_int i) \<Longrightarrow> c \<noteq> LF \<and> c \<noteq> CR" for c
    using nat_digits_chars [of c]
    by (auto simp: py_str_int_def LF_def CR_def split: if_splits)
  then show ?thesis by blast
qed

lemma storable_value_quoted:
  assumes "LF \<notin> set s" "CR \<notin> set s"
  shows "storable_value (quoted s)"
proof -
  have q: "\<not> py_isspace (CHR 0x22)" by (simp add: py_isspace_def)
  have "py_strip ([] @ quoted s @ []) = quoted s"
    by (rule py_strip_pad) (use q in \<open>auto simp: quoted_def\<close>)
  then show ?thesis
    using assms by (simp add: storable_value_def quoted_def LF_def CR_def)
qed

lemma storable_value_quoted_int: "storable_value (quoted_int i)"
  unfolding quoted_int_def using py_str_int_clean [of i] by (intro storable_value_quoted) auto

lemma storable_viewport_keys:
  "storable_key ''custom_viewport_width''" "storable_key ''custom_viewport_height''"
  "storable_key ''custom_viewport_x''" "storable_key ''custom_viewport_y''"
  "storable_key ''aspect_ratio_index''"
  by (simp_all add: storable_key_def py_strip_def py_isspace_def LF_def CR_def)

lemma storable_set_viewport_keys:
  "storable config \<Longrightarrow> storable (set_viewport_keys config width height x y)"
  by (auto simp: set_viewport_keys_def Let_def LF_def CR_def
      intro!: storable_update storable_viewport_keys storable_value_quoted_int
        storable_value_quoted)

lemma distinct_set_viewport_keys:
  "distinct (map fst config) \<Longrightarrow> distinct (map fst (set_viewport_keys config width height x y))"
  by (simp add: set_viewport_keys_def Let_def distinct_update)

lemma map_of_set_viewport_keys:
  "map_of (set_viewport_keys config width height x y) =
     (map_of config)
       (''custom_viewport_width'' \<mapsto> quoted_int width,
        ''custom_viewport_height'' \<mapsto> quoted_int height,
        ''custom_viewport_x'' \<mapsto> quoted_int (or_zero x),
        ''custom_viewport_y'' \<mapsto> quoted_int (or_zero y),
        ''aspect_ratio_index'' \<mapsto> quoted ''23'')"
  by (simp add: set_viewport_keys_def Let_def update_conv')

lemma file_text_write_file_other:
  "write_file files d n content = Inr files' \<Longrightarrow> n' \<noteq> n \<Longrightarrow>
   file_text files' d' n' = file_text files d' n'"
  by (auto simp: write_file_def file_text_def update_conv' split: option.splits if_splits)

lemma dir_exists_write_file:
  "write_file files d n content = Inr files' \<Longrightarrow> dir_exists files' d' = dir_exists files d'"
  by (auto simp: write_file_def dir_exists_def update_conv' split: option.splits if_splits)

lemma fs_log [simp]: "fs (log msg w) = fs w"
  by (simp add: log_def)

lemma logs_log [simp]: "logs (log msg w) = logs w @ [msg]"
  by (simp add: log_def)

text \<open>What one call of \<open>update_rom_config\<close> does to the files.\<close>

lemma update_rom_config_files:
  assumes "output_folder m = Some d" and "dir_exists (fs w) d"
  shows "\<exists>w'. update_rom_config m w rom width height x y = Inr w'
           \<and> write_file (fs w) d (rom @ ''.zip.cfg'')
                (write_config_text
                   (set_viewport_keys (read_config_file (fs w) d (rom @ ''.zip.cfg'')) width height x y))
               = Inr (fs w')"
proof -
  obtain files' where "write_file (fs w) d (rom @ ''.zip.cfg'')
                (write_config_text
                   (set_viewport_keys (read_config_file (fs w) d (rom @ ''.zip.cfg'')) width height x y))
               = Inr files'"
    using write_file_succeeds [OF assms(2)] by blast
  then show ?thesis
    using assms(1) by (simp add: update_rom_config_def write_config_file_def Let_def)
qed

lemma storable_Nil [simp]: "storable []"
  by (simp add: storable_def)

lemma read_config_file_storable: "storable (read_config_file files d n)"
  by (simp add: read_config_file_def read_config_text_storable split: option.splits)

lemma read_config_file_distinct: "distinct (map fst (read_config_file files d n))"
  by (simp add: read_config_file_def read_config_text_distinct split: option.splits)

lemma update_rom_config_read_back:
  assumes "output_folder m = Some d" and "dir_exists (fs w) d"
  shows "\<exists>w'. update_rom_config m w rom width height x y = Inr w'
           \<and> dir_exists (fs w') d
           \<and> file_text (fs w') d (rom @ ''.zip.cfg'')
               = Some (write_config_text
                   (set_viewport_keys (read_config_file (fs w) d (rom @ ''.zip.cfg'')) width height x y))
           \<and> map_of (read_config_file (fs w') d (rom @ ''.zip.cfg''))
               = map_of (set_viewport_keys (read_config_file (fs w) d (rom @ ''.zip.cfg'')) width height x y)
           \<and> (\<forall>n'. n' \<noteq> rom @ ''.zip.cfg'' \<longrightarrow> file_text (fs w') d n' = file_text (fs w) d n')"
proof -
  let ?n = "rom @ ''.zip.cfg''"
  let ?c = "set_viewport_keys (read_config_file (fs w) d ?n) width height x y"
  obtain w' where u: "update_rom_config m w rom width height x y = Inr w'"
    and wf: "write_file (fs w) d ?n (write_config_text ?c) = Inr (fs w')"
    using update_rom_config_files [OF assms] by blast
  have ft: "file_text (fs w') d ?n = Some (write_config_text ?c)"
    using wf by (rule file_text_write_file)
  have "map_of (read_config_text (write_config_text ?c)) = map_of ?c"
    by (intro read_write_roundtrip distinct_set_viewport_keys storable_set_viewport_keys
        read_config_file_distinct read_config_file_storable)
  then have rb: "map_of (read_config_file (fs w') d ?n) = map_of ?c"
    using ft by (simp add: read_config_file_def)
  have de: "dir_exists (fs w') d"
    using dir_exists_write_file [OF wf] assms(2) by simp
  have oth: "\<forall>n'. n' \<noteq> ?n \<longrightarrow> file_text (fs w') d n' = file_text (fs w) d n'"
    using file_text_write_file_other [OF wf] by blast
  show ?thesis
    using u de ft rb oth by blast
qed

text \<open>
  Claim C5. With an output folder that exists, \<open>update_rom_config\<close> returns, the target
  file exists afterwards, and reading it back gives a record whose five viewport keys
  hold the width and the height of the call, the x and the y of the call or \<open>0\<close> where
  they are \<open>None\<close>, and \<open>23\<close> for aspect_ratio_index, each between double quotes.
\<close>

theorem update_rom_config_sets_viewport_keys:
  assumes "output_folder m = Some d" and "dir_exists (fs w) d"
  shows "\<exists>w'. update_rom_config m w rom width height x y = Inr w'
           \<and> file_exists (fs w') d (rom @ ''.zip.cfg'')
           \<and> map_of (read_config_file (fs w') d (rom @ ''.zip.cfg'')) ''custom_viewport_width''
               = Some (quoted (py_str_int width))
           \<and> map_of (read_config_file (fs w') d (rom @ ''.zip.cfg'')) ''custom_viewport_height''
               = Some (quoted (py_str_int height))
           \<and> map_of (read_config_file (fs w') d (rom @ ''.zip.cfg'')) ''custom_viewport_x''
               = Some (quoted (case x of Some v \<Rightarrow> py_str_int v | None \<Rightarrow> ''0''))
           \<and> map_of (read_config_file (fs w') d (rom @ ''.zip.cfg'')) ''custom_viewport_y''
               = Some (quoted (case y of Some v \<Rightarrow> py_str_int v | None \<Rightarrow> ''0''))
           \<and> map_of (read_config_file (fs w') d (rom @ ''.zip.cfg'')) ''aspect_ratio_index''
               = Some (quoted ''23'')"
proof -
  have z: "py_str_int 0 = ''0''"
    by code_simp
  obtain w' where u: "update_rom_config m w rom width height x y = Inr w'"
    and ft: "file_text (fs w') d (rom @ ''.zip.cfg'')
               = Some (write_config_text
                   (set_viewport_keys (read_config_file (fs w) d (rom @ ''.zip.cfg'')) width height x y))"
    and rb: "map_of (read_config_file (fs w') d (rom @ ''.zip.cfg''))
               = map_of (set_viewport_keys (read_config_file (fs w) d (rom @ ''.zip.cfg'')) width height x y)"
    using update_rom_config_read_back [OF assms] by blast
  have ex: "file_exists (fs w') d (rom @ ''.zip.cfg'')"
    using ft by (simp add: file_exists_def)
  have xy: "quoted_int (or_zero v) = quoted (case v of Some v \<Rightarrow> py_str_int v | None \<Rightarrow> ''0'')" for v
    by (simp add: quoted_int_def or_zero_def z split: option.splits)
  have keys:
    "map_of (read_config_file (fs w') d (rom @ ''.zip.cfg'')) ''custom_viewport_width''
       = Some (quoted (py_str_int width))"
    "map_of (read_config_file (fs w') d (rom @ ''.zip.cfg'')) ''custom_viewport_height''
       = Some (quoted (py_str_int height))"
    "map_of (read_config_file (fs w') d (rom @ ''.zip.cfg'')) ''custom_viewport_x''
       = Some (quoted (case x of Some v \<Rightarrow> py_str_int v | None \<Rightarrow> ''0''))"
    "map_of (read_config_file (fs w') d (rom @ ''.zip.cfg'')) ''custom_viewport_y''
       = Some (quoted (case y of Some v \<Rightarrow> py_str_int v | None \<Rightarrow> ''0''))"
    "map_of (read_config_file (fs w') d (rom @ ''.zip.cfg'')) ''aspect_ratio_index''
       = Some (quoted ''23'')"
    unfolding rb map_of_set_viewport_keys xy by (simp_all add: quoted_int_def)
  show ?thesis
    using u ex keys by blast
qed

theorem update_rom_config_sets_viewport_keys_witness:
  "output_folder example_manager = Some ''roms'' \<and> dir_exists (fs example_world) ''roms''
   \<and> (\<exists>w'. update_rom_config example_manager example_world ''pacman'' 1920 1080 None (Some 12) = Inr w'
        \<and> file_exists (fs w') ''roms'' ''pacman.zip.cfg''
        \<and> map_of (read_config_file (fs w') ''roms'' ''pacman.zip.cfg'') ''custom_viewport_width''
            = Some (quoted ''1920'')
        \<and> map_of (read_config_file (fs w') ''roms'' ''pacman.zip.cfg'') ''custom_viewport_height''
            = Some (quoted ''1080'')
        \<and> map_of (read_config_file (fs w') ''roms'' ''pacman.zip.cfg'') ''custom_viewport_x''
            = Some (quoted ''0'')
        \<and> map_of (read_config_file (fs w') ''roms'' ''pacman.zip.cfg'') ''custom_viewport_y''
            = Some (quoted ''12'')
        \<and> map_of (read_config_file (fs w') ''roms'' ''pacman.zip.cfg'') ''aspect_ratio_index''
            = Some (quoted ''23''))"
proof -
  have a: "output_folder example_manager = Some ''roms''"
    by (simp add: output_folder_def example_manager_def)
  have b: "dir_exists (fs example_world) ''roms''"
    by (simp add: dir_exists_def example_world_def)
  have n: "py_str_int 1920 = ''1920''" "py_str_int 1080 = ''1080''" "py_str_int 12 = ''12''"
    by code_simp+
  show ?thesis
    using update_rom_config_sets_viewport_keys [OF a b, of "''pacman''" 1920 1080 None "Some 12"] a b
    by (simp add: n)
qed

lemma example_world_record:
  "read_config_file (fs example_world) ''roms'' ''pacman.zip.cfg''
     = [(''video_smooth'', ''true''), (''custom_viewport_x'', quoted ''7'')]"
  by (simp add: example_world_def read_config_file_def file_text_def read_config_text_def
      text_lines_def read_line_def split_eq_def py_strip_def py_isspace_def quoted_def
      LF_def CR_def)

lemma example_folder:
  "output_folder example_manager = Some ''roms''" "dir_exists (fs example_world) ''roms''"
  by (simp_all add: output_folder_def example_manager_def dir_exists_def example_world_def)

lemma map_of_set_viewport_keys_twice:
  assumes "map_of c1 = map_of (set_viewport_keys c0 width height x y)"
  shows "map_of (set_viewport_keys c1 width height x y)
           = map_of (set_viewport_keys c0 width height x y)"
  unfolding map_of_set_viewport_keys [of c1] assms
  unfolding map_of_set_viewport_keys by (simp add: fun_eq_iff)

text \<open>
  Claim C2. With an output folder that exists, two calls of \<open>update_rom_config\<close> in
  succession with the same arguments both return, and the target file holds the same
  text after the second call as after the first.
\<close>

theorem update_rom_config_idempotent:
  assumes "output_folder m = Some d" and "dir_exists (fs w) d"
  shows "\<exists>w1 w2 content.
           update_rom_config m w rom width height x y = Inr w1
           \<and> update_rom_config m w1 rom width height x y = Inr w2
           \<and> file_text (fs w1) d (rom @ ''.zip.cfg'') = Some content
           \<and> file_text (fs w2) d (rom @ ''.zip.cfg'') = Some content"
proof -
  let ?n = "rom @ ''.zip.cfg''"
  let ?c0 = "read_config_file (fs w) d ?n"
  obtain w1 where u1: "update_rom_config m w rom width height x y = Inr w1"
    and d1: "dir_exists (fs w1) d"
    and f1: "file_text (fs w1) d ?n = Some (write_config_text (set_viewport_keys ?c0 width height x y))"
    and m1: "map_of (read_config_file (fs w1) d ?n) = map_of (set_viewport_keys ?c0 width height x y)"
    using update_rom_config_read_back [OF assms] by blast
  let ?c1 = "read_config_file (fs w1) d ?n"
  obtain w2 where u2: "update_rom_config m w1 rom width height x y = Inr w2"
    and f2: "file_text (fs w2) d ?n = Some (write_config_text (set_viewport_keys ?c1 width height x y))"
    using update_rom_config_read_back [OF assms(1) d1] by blast
  have "write_config_text (set_viewport_keys ?c1 width height x y)
          = write_config_text (set_viewport_keys ?c0 width height x y)"
    by (intro write_config_text_cong distinct_set_viewport_keys read_config_file_distinct
        map_of_set_viewport_keys_twice m1)
  then show ?thesis
    using u1 u2 f1 f2 by simp
qed

theorem update_rom_config_idempotent_witness:
  "output_folder example_manager = Some ''roms'' \<and> dir_exists (fs example_world) ''roms''
   \<and> (\<exists>w1 w2 content.
         update_rom_config example_manager example_world ''pacman'' 1920 1080 None (Some 12) = Inr w1
         \<and> update_rom_config example_manager w1 ''pacman'' 1920 1080 None (Some 12) = Inr w2
         \<and> file_text (fs w1) ''roms'' ''pacman.zip.cfg'' = Some content
         \<and> file_text (fs w2) ''roms'' ''pacman.zip.cfg'' = Some content)"
  using update_rom_config_idempotent [OF example_folder, of "''pacman''" 1920 1080 None "Some 12"]
    example_folder
  by simp

section \<open>Removing the override of one target\<close>

lemma map_of_remove_keys:
  "map_of (fst (remove_keys config b ks)) k = (if k \<in> set ks then None else map_of config k)"
  by (induction ks arbitrary: config b) (auto simp: delete_conv')

lemma snd_remove_keys:
  "snd (remove_keys config b ks) = (b \<or> (\<exists>k\<in>set ks. map_of config k \<noteq> None))"
proof (induction ks arbitrary: config b)
  case Nil
  show ?case by simp
next
  case (Cons key ks)
  show ?case
  proof (cases "map_of config key = None")
    case True
    then show ?thesis using Cons [of config b] by auto
  next
    case False
    then show ?thesis using Cons [of "AList.delete key config" True] by auto
  qed
qed

lemma distinct_remove_keys:
  "distinct (map fst config) \<Longrightarrow> distinct (map fst (fst (remove_keys config b ks)))"
  by (induction ks arbitrary: config b) (auto simp: distinct_delete)

lemma storable_remove_keys:
  "storable config \<Longrightarrow> storable (fst (remove_keys config b ks))"
  by (induction ks arbitrary: config b) (auto simp: storable_delete)

lemma file_exists_dir: "file_exists files d n \<Longrightarrow> dir_exists files d"
  by (auto simp: file_exists_def file_text_def dir_exists_def split: option.splits)

lemma unlink_succeeds:
  "file_exists files d n \<Longrightarrow> \<exists>files'. unlink files d n = Inr files'"
  by (auto simp: unlink_def file_exists_def file_text_def split: option.splits)

lemma file_text_unlink:
  "unlink files d n = Inr files' \<Longrightarrow> file_text files' d n = None"
  by (auto simp: unlink_def file_text_def update_conv' delete_conv' split: option.splits if_splits)

lemma file_text_unlink_other:
  "unlink files d n = Inr files' \<Longrightarrow> n' \<noteq> n \<Longrightarrow> file_text files' d' n' = file_text files d' n'"
  by (auto simp: unlink_def file_text_def update_conv' delete_conv' split: option.splits if_splits)

lemma map_of_empty_config: "map_of config = Map.empty \<longleftrightarrow> config = []"
  by (cases config) (auto simp: fun_eq_iff)

text \<open>\<open>remove_rom_config\<close> by cases, once the loop over the five keys has run.\<close>

lemma remove_rom_config_cases:
  assumes "output_folder m = Some d"
    and "remove_keys (read_config_file (fs w) d (rom @ ''.zip.cfg'')) False
           [''custom_viewport_width'', ''custom_viewport_height'',
            ''custom_viewport_x'', ''custom_viewport_y'', ''aspect_ratio_index''] = (c, removed)"
  shows "remove_rom_config m w rom del =
     (if \<not> file_exists (fs w) d (rom @ ''.zip.cfg'')
      then Inr ((False, False), log (''No config file found for '' @ rom @ ''.zip'') w)
      else if \<not> removed
      then Inr ((False, False),
             log (''No viewport overrides found in config for '' @ rom @ ''.zip'') w)
      else if c = [] \<and> del
      then (case unlink (fs w) d (rom @ ''.zip.cfg'') of
              Inl e \<Rightarrow> Inl e
            | Inr files \<Rightarrow>
                Inr ((True, True),
                  log (''Removed config file for '' @ rom
                         @ ''.zip (was empty after removing overrides)'')
                    (w\<lparr>fs := files\<rparr>)))
      else (case write_file (fs w) d (rom @ ''.zip.cfg'') (write_config_text c) of
              Inl e \<Rightarrow> Inl e
            | Inr files \<Rightarrow>
                Inr ((True, c = []),
                  log (if c = []
                       then ''Config for '' @ rom @ ''.zip is now empty after removing overrides''
                       else ''Removed viewport overrides from '' @ rom @ ''.zip config'')
                    (w\<lparr>fs := files\<rparr>))))"
proof -
  have "remove_rom_config m w rom del =
     (if \<not> file_exists (fs w) d (rom @ ''.zip.cfg'')
      then Inr ((False, False), log (''No config file found for '' @ rom @ ''.zip'') w)
      else if \<not> removed
      then Inr ((False, False),
             log (''No viewport overrides found in config for '' @ rom @ ''.zip'') w)
      else if c = [] \<and> del
      then (case unlink (fs w) d (rom @ ''.zip.cfg'') of
              Inl e \<Rightarrow> Inl e
            | Inr files \<Rightarrow>
                Inr ((True, c = []),
                  log (''Removed config file for '' @ rom
                         @ ''.zip (was empty after removing overrides)'')
                    (w\<lparr>fs := files\<rparr>)))
      else if c = []
      then (case write_file (fs w) d (rom @ ''.zip.cfg'') (write_config_text c) of
              Inl e \<Rightarrow> Inl e
            | Inr files \<Rightarrow>
                Inr ((True, c = []),
                  log (''Config for '' @ rom @ ''.zip is now empty after removing overrides'')
                    (w\<lparr>fs := files\<rparr>)))
      else (case write_file (fs w) d (rom @ ''.zip.cfg'') (write_config_text c) of
              Inl e \<Rightarrow> Inl e
            | Inr files \<Rightarrow>
                Inr ((True, c = []),
                  log (''Removed viewport overrides from '' @ rom @ ''.zip config'')
                    (w\<lparr>fs := files\<rparr>))))"
    unfolding remove_rom_config_def Let_def write_config_file_def assms(1) option.case assms(2)
      prod.case ..
  then show ?thesis
    by (cases "c = []") (auto split: sum.splits)
qed

lemma removed_keys_result:
  assumes "remove_keys config False
           [''custom_viewport_width'', ''custom_viewport_height'',
            ''custom_viewport_x'', ''custom_viewport_y'', ''aspect_ratio_index''] = (c, removed)"
  shows "map_of c = (\<lambda>k. if k \<in> set viewport_order then None else map_of config k)"
    and "removed = (\<exists>k\<in>set viewport_order. map_of config k \<noteq> None)"
    and "distinct (map fst config) \<Longrightarrow> distinct (map fst c)"
    and "storable config \<Longrightarrow> storable c"
proof -
  let ?keys = "[''custom_viewport_width'', ''custom_viewport_height'',
                ''custom_viewport_x'', ''custom_viewport_y'', ''aspect_ratio_index'']"
  have ks: "set ?keys = set viewport_order"
    by (auto simp: viewport_order_def)
  show "map_of c = (\<lambda>k. if k \<in> set viewport_order then None else map_of config k)"
    using map_of_remove_keys [of config False ?keys] unfolding ks assms by (simp add: fun_eq_iff)
  show "removed = (\<exists>k\<in>set viewport_order. map_of config k \<noteq> None)"
    using snd_remove_keys [of config False ?keys] unfolding ks assms by simp
  show "distinct (map fst config) \<Longrightarrow> distinct (map fst c)"
    using distinct_remove_keys [of config False ?keys] unfolding assms by simp
  show "storable config \<Longrightarrow> storable c"
    using storable_remove_keys [of config False ?keys] unfolding assms by simp
qed

text \<open>What \<open>remove_rom_config\<close> leaves: it returns, and the record read from the target
  afterwards is the record read before without the five viewport keys.\<close>

lemma remove_rom_config_read_back:
  assumes "output_folder m = Some d"
  shows "\<exists>r w'. remove_rom_config m w rom del = Inr (r, w')
           \<and> map_of (read_config_file (fs w') d (rom @ ''.zip.cfg''))
               = (\<lambda>k. if k \<in> set viewport_order then None
                       else map_of (read_config_file (fs w) d (rom @ ''.zip.cfg'')) k)"
proof -
  let ?n = "rom @ ''.zip.cfg''"
  let ?keys = "[''custom_viewport_width'', ''custom_viewport_height'',
                ''custom_viewport_x'', ''custom_viewport_y'', ''aspect_ratio_index'']"
  let ?c0 = "read_config_file (fs w) d ?n"
  obtain c removed where rk: "remove_keys ?c0 False ?keys = (c, removed)"
    by (cases "remove_keys ?c0 False ?keys")
  note eq = remove_rom_config_cases [OF assms rk, of del]
  note mc = removed_keys_result(1) [OF rk]
  note any = removed_keys_result(2) [OF rk]
  note dc = removed_keys_result(3) [OF rk read_config_file_distinct]
  note sc = removed_keys_result(4) [OF rk read_config_file_storable]
  let ?after = "\<lambda>k. if k \<in> set viewport_order then None else map_of ?c0 k"
  show ?thesis
  proof (cases "file_exists (fs w) d ?n")
    case False
    then have "?c0 = []"
      by (simp add: read_config_file_def file_exists_def)
    then have "map_of (read_config_file (fs w) d ?n) = ?after"
      by (simp add: fun_eq_iff)
    moreover have "remove_rom_config m w rom del
        = Inr ((False, False), log (''No config file found for '' @ rom @ ''.zip'') w)"
      unfolding eq using False by simp
    ultimately show ?thesis
      by (intro exI [of _ "(False, False)"]
          exI [of _ "log (''No config file found for '' @ rom @ ''.zip'') w"]) simp
  next
    case ex: True
    show ?thesis
    proof (cases removed)
      case False
      then have "map_of (read_config_file (fs w) d ?n) = ?after"
        using any by (auto simp: fun_eq_iff)
      moreover have "remove_rom_config m w rom del
          = Inr ((False, False),
              log (''No viewport overrides found in config for '' @ rom @ ''.zip'') w)"
        unfolding eq using False ex by simp
      ultimately show ?thesis
        by (intro exI [of _ "(False, False)"]
            exI [of _ "log (''No viewport overrides found in config for '' @ rom @ ''.zip'') w"])
          simp
    next
      case an: True
      show ?thesis
      proof (cases "c = [] \<and> del")
        case True
        obtain files' where ul: "unlink (fs w) d ?n = Inr files'"
          using unlink_succeeds [OF ex] by blast
        have "read_config_file files' d ?n = []"
          using file_text_unlink [OF ul] by (simp add: read_config_file_def)
        moreover have "map_of c = Map.empty"
          using True by simp
        ultimately have "map_of (read_config_file files' d ?n) = ?after"
          using mc by simp
        moreover have "remove_rom_config m w rom del
            = Inr ((True, True),
                log (''Removed config file for '' @ rom
                       @ ''.zip (was empty after removing overrides)'')
                  (w\<lparr>fs := files'\<rparr>))"
          unfolding eq using True an ex ul by simp
        ultimately show ?thesis
          by (intro exI [of _ "(True, True)"]
              exI [of _ "log (''Removed config file for '' @ rom
                       @ ''.zip (was empty after removing overrides)'')
                  (w\<lparr>fs := files'\<rparr>)"]) simp
      next
        case False
        obtain files' where wf: "write_file (fs w) d ?n (write_config_text c) = Inr files'"
          using write_file_succeeds [OF file_exists_dir [OF ex]] by blast
        have "map_of (read_config_text (write_config_text c)) = map_of c"
          using dc sc by (rule read_write_roundtrip)
        then have "map_of (read_config_file files' d ?n) = ?after"
          using file_text_write_file [OF wf] mc by (simp add: read_config_file_def)
        moreover have "\<exists>msg. remove_rom_config m w rom del
            = Inr ((True, c = []), log msg (w\<lparr>fs := files'\<rparr>))"
          unfolding eq using False an ex wf by auto
        ultimately show ?thesis
          by auto
      qed
    qed
  qed
qed

text \<open>
  Claim C3. With an output folder that exists, \<open>update_rom_config\<close> and
  \<open>remove_rom_config\<close> both return, and for every key that is not one of the five
  viewport keys the record read from the target after the call holds what the record
  read before the call held: the key with the same value, or no such key.
\<close>

theorem unrelated_keys_survive:
  assumes "output_folder m = Some d" and "dir_exists (fs w) d" and "k \<notin> set viewport_order"
  shows "(\<exists>w'. update_rom_config m w rom width height x y = Inr w'
            \<and> map_of (read_config_file (fs w') d (rom @ ''.zip.cfg'')) k
                = map_of (read_config_file (fs w) d (rom @ ''.zip.cfg'')) k)
       \<and> (\<exists>r w'. remove_rom_config m w rom del = Inr (r, w')
            \<and> map_of (read_config_file (fs w') d (rom @ ''.zip.cfg'')) k
                = map_of (read_config_file (fs w) d (rom @ ''.zip.cfg'')) k)"
proof
  obtain w' where u: "update_rom_config m w rom width height x y = Inr w'"
    and rb: "map_of (read_config_file (fs w') d (rom @ ''.zip.cfg''))
               = map_of (set_viewport_keys (read_config_file (fs w) d (rom @ ''.zip.cfg'')) width height x y)"
    using update_rom_config_read_back [OF assms(1,2)] by blast
  have "map_of (read_config_file (fs w') d (rom @ ''.zip.cfg'')) k
          = map_of (read_config_file (fs w) d (rom @ ''.zip.cfg'')) k"
    unfolding rb map_of_set_viewport_keys using assms(3) by (auto simp: viewport_order_def)
  with u show "\<exists>w'. update_rom_config m w rom width height x y = Inr w'
            \<and> map_of (read_config_file (fs w') d (rom @ ''.zip.cfg'')) k
                = map_of (read_config_file (fs w) d (rom @ ''.zip.cfg'')) k"
    by blast
next
  obtain r w' where u: "remove_rom_config m w rom del = Inr (r, w')"
    and rb: "map_of (read_config_file (fs w') d (rom @ ''.zip.cfg''))
               = (\<lambda>k. if k \<in> set viewport_order then None
                       else map_of (read_config_file (fs w) d (rom @ ''.zip.cfg'')) k)"
    using remove_rom_config_read_back [OF assms(1)] by blast
  have "map_of (read_config_file (fs w') d (rom @ ''.zip.cfg'')) k
          = map_of (read_config_file (fs w) d (rom @ ''.zip.cfg'')) k"
    unfolding rb using assms(3) by simp
  with u show "\<exists>r w'. remove_rom_config m w rom del = Inr (r, w')
            \<and> map_of (read_config_file (fs w') d (rom @ ''.zip.cfg'')) k
                = map_of (read_config_file (fs w) d (rom @ ''.zip.cfg'')) k"
    by blast
qed

theorem unrelated_keys_survive_witness:
  "output_folder example_manager = Some ''roms'' \<and> dir_exists (fs example_world) ''roms''
   \<and> ''video_smooth'' \<notin> set viewport_order
   \<and> map_of (read_config_file (fs example_world) ''roms'' ''pacman.zip.cfg'') ''video_smooth''
       = Some ''true''
   \<and> (\<exists>w'. update_rom_config example_manager example_world ''pacman'' 320 240 None None = Inr w'
         \<and> map_of (read_config_file (fs w') ''roms'' ''pacman.zip.cfg'') ''video_smooth''
             = Some ''true'')
   \<and> (\<exists>r w'. remove_rom_config example_manager example_world ''pacman'' True = Inr (r, w')
         \<and> map_of (read_config_file (fs w') ''roms'' ''pacman.zip.cfg'') ''video_smooth''
             = Some ''true'')"
proof -
  have k: "''video_smooth'' \<notin> set viewport_order"
    by (simp add: viewport_order_def)
  have v: "map_of (read_config_file (fs example_world) ''roms'' ''pacman.zip.cfg'') ''video_smooth''
             = Some ''true''"
    by (simp add: example_world_record)
  show ?thesis
    using unrelated_keys_survive [OF example_folder k, of "''pacman''" 320 240 None None True]
      example_folder k v
    by simp
qed

text \<open>
  Claim C8. \<open>remove_rom_config\<close> returns \<open>(False, False)\<close>, changes no file and adds
  one line to the log, both when the target file does not exist and when it exists and
  the record read from it holds none of the five viewport keys; the line logged differs
  between the two cases.
\<close>

theorem remove_rom_config_idle:
  assumes "output_folder m = Some d"
  shows "(\<not> file_exists (fs w) d (rom @ ''.zip.cfg'') \<longrightarrow>
            remove_rom_config m w rom del
              = Inr ((False, False),
                  w\<lparr>logs := logs w @ [''No config file found for '' @ rom @ ''.zip'']\<rparr>))
       \<and> (file_exists (fs w) d (rom @ ''.zip.cfg'')
            \<and> (\<forall>k\<in>set viewport_order.
                  map_of (read_config_file (fs w) d (rom @ ''.zip.cfg'')) k = None) \<longrightarrow>
            remove_rom_config m w rom del
              = Inr ((False, False),
                  w\<lparr>logs := logs w
                     @ [''No viewport overrides found in config for '' @ rom @ ''.zip'']\<rparr>))
       \<and> ''No config file found for '' @ rom @ ''.zip''
            \<noteq> ''No viewport overrides found in config for '' @ rom @ ''.zip''"
proof -
  let ?c0 = "read_config_file (fs w) d (rom @ ''.zip.cfg'')"
  obtain c removed where rk: "remove_keys ?c0 False
           [''custom_viewport_width'', ''custom_viewport_height'',
            ''custom_viewport_x'', ''custom_viewport_y'', ''aspect_ratio_index''] = (c, removed)"
    by (cases "remove_keys ?c0 False
           [''custom_viewport_width'', ''custom_viewport_height'',
            ''custom_viewport_x'', ''custom_viewport_y'', ''aspect_ratio_index'']")
  note eq = remove_rom_config_cases [OF assms rk, of del]
  note any = removed_keys_result(2) [OF rk]
  show ?thesis
    unfolding eq using any by (auto simp: log_def)
qed

theorem remove_rom_config_idle_witness:
  "output_folder example_manager = Some ''roms''
   \<and> \<not> file_exists (fs example_world) ''roms'' ''galaga.zip.cfg''
   \<and> remove_rom_config example_manager example_world ''galaga'' True
       = Inr ((False, False),
           example_world\<lparr>logs := logs example_world @ [''No config file found for galaga.zip'']\<rparr>)
   \<and> file_exists (fs (example_world\<lparr>fs := [(''roms'', [(''pacman.zip.cfg'', ''video_smooth = true'')])]\<rparr>))
        ''roms'' ''pacman.zip.cfg''
   \<and> list_all (\<lambda>k. map_of (read_config_file
          (fs (example_world\<lparr>fs := [(''roms'', [(''pacman.zip.cfg'', ''video_smooth = true'')])]\<rparr>))
          ''roms'' ''pacman.zip.cfg'') k = None) viewport_order
   \<and> remove_rom_config example_manager
        (example_world\<lparr>fs := [(''roms'', [(''pacman.zip.cfg'', ''video_smooth = true'')])]\<rparr>)
        ''pacman'' True
       = Inr ((False, False),
           example_world\<lparr>fs := [(''roms'', [(''pacman.zip.cfg'', ''video_smooth = true'')])],
             logs := logs example_world @ [''No viewport overrides found in config for pacman.zip'']\<rparr>)"
proof -
  let ?w = "example_world\<lparr>fs := [(''roms'', [(''pacman.zip.cfg'', ''video_smooth = true'')])]\<rparr>"
  have a: "\<not> file_exists (fs example_world) ''roms'' ''galaga.zip.cfg''"
    by (simp add: file_exists_def file_text_def example_world_def)
  have b: "file_exists (fs ?w) ''roms'' ''pacman.zip.cfg''"
    by (simp add: file_exists_def file_text_def)
  have r: "read_config_file (fs ?w) ''roms'' ''pacman.zip.cfg'' = [(''video_smooth'', ''true'')]"
    by (simp add: read_config_file_def file_text_def read_config_text_def
      text_lines_def read_line_def split_eq_def py_strip_def py_isspace_def LF_def CR_def)
  have c: "list_all (\<lambda>k. map_of (read_config_file (fs ?w) ''roms'' ''pacman.zip.cfg'') k = None)
             viewport_order"
    unfolding r by (simp add: viewport_order_def)
  have c': "\<forall>k\<in>set viewport_order.
              map_of (read_config_file (fs ?w) ''roms'' ''pacman.zip.cfg'') k = None"
    using c unfolding list_all_iff .
  have t1: "remove_rom_config example_manager example_world ''galaga'' True
       = Inr ((False, False),
           example_world\<lparr>logs := logs example_world @ [''No config file found for galaga.zip'']\<rparr>)"
    using remove_rom_config_idle [OF example_folder(1), of example_world "''galaga''" True] a
    by simp
  have t2: "remove_rom_config example_manager ?w ''pacman'' True
       = Inr ((False, False),
           example_world\<lparr>fs := [(''roms'', [(''pacman.zip.cfg'', ''video_smooth = true'')])],
             logs := logs example_world @ [''No viewport overrides found in config for pacman.zip'']\<rparr>)"
    using remove_rom_config_idle [OF example_folder(1), of ?w "''pacman''" True] b c'
    by simp
  show ?thesis
    using example_folder(1) a t1 b c t2 by (intro conjI)
qed

text \<open>
  Claim C7. For a target whose record is not empty and holds viewport keys only,
  \<open>remove_rom_config\<close> with \<open>delete_if_empty\<close> deletes the file and returns
  \<open>(True, True)\<close>; without it the file is left in place with no content, a record read
  from it has no key, and the result is \<open>(True, True)\<close> again, the second component
  telling the caller that the record is now empty.
\<close>

theorem remove_rom_config_only_viewport_keys:
  assumes "output_folder m = Some d"
    and "read_config_file (fs w) d (rom @ ''.zip.cfg'') \<noteq> []"
    and "fst ` set (read_config_file (fs w) d (rom @ ''.zip.cfg'')) \<subseteq> set viewport_order"
  shows "(\<exists>w'. remove_rom_config m w rom True = Inr ((True, True), w')
            \<and> \<not> file_exists (fs w') d (rom @ ''.zip.cfg''))
       \<and> (\<exists>w'. remove_rom_config m w rom False = Inr ((True, True), w')
            \<and> file_text (fs w') d (rom @ ''.zip.cfg'') = Some []
            \<and> read_config_file (fs w') d (rom @ ''.zip.cfg'') = [])"
proof -
  let ?n = "rom @ ''.zip.cfg''"
  let ?c0 = "read_config_file (fs w) d ?n"
  obtain c removed where rk: "remove_keys ?c0 False
           [''custom_viewport_width'', ''custom_viewport_height'',
            ''custom_viewport_x'', ''custom_viewport_y'', ''aspect_ratio_index''] = (c, removed)"
    by (cases "remove_keys ?c0 False
           [''custom_viewport_width'', ''custom_viewport_height'',
            ''custom_viewport_x'', ''custom_viewport_y'', ''aspect_ratio_index'']")
  note mc = removed_keys_result(1) [OF rk]
  note any = removed_keys_result(2) [OF rk]
  have ex: "file_exists (fs w) d ?n"
    using assms(2) by (auto simp: read_config_file_def file_exists_def split: option.splits)
  obtain k v rest where c0: "?c0 = (k, v) # rest"
    using assms(2) by (cases ?c0) auto
  then have "k \<in> set viewport_order" "map_of ?c0 k \<noteq> None"
    using assms(3) by auto
  then have rm: removed
    using any by blast
  have "map_of ?c0 k = None" if "k \<notin> set viewport_order" for k
    using that assms(3) by (auto simp: map_of_eq_None_iff)
  then have "map_of c = Map.empty"
    unfolding mc by (auto simp: fun_eq_iff)
  then have ce: "c = []"
    by (simp add: map_of_empty_config)
  have wt: "write_config_text [] = []"
    by (simp add: write_config_text_def write_viewport_key_def viewport_order_def)
  obtain files1 where ul: "unlink (fs w) d ?n = Inr files1"
    using unlink_succeeds [OF ex] by blast
  have r1: "remove_rom_config m w rom True
             = Inr ((True, True),
                 log (''Removed config file for '' @ rom
                        @ ''.zip (was empty after removing overrides)'')
                   (w\<lparr>fs := files1\<rparr>))"
    unfolding remove_rom_config_cases [OF assms(1) rk] using ex rm ce ul by simp
  have e1: "\<not> file_exists files1 d ?n"
    using file_text_unlink [OF ul] by (simp add: file_exists_def)
  obtain files2 where wf: "write_file (fs w) d ?n [] = Inr files2"
    using write_file_succeeds [OF file_exists_dir [OF ex]] by blast
  have r2: "remove_rom_config m w rom False
             = Inr ((True, True),
                 log (''Config for '' @ rom @ ''.zip is now empty after removing overrides'')
                   (w\<lparr>fs := files2\<rparr>))"
    unfolding remove_rom_config_cases [OF assms(1) rk] using ex rm ce wf wt by simp
  have e2: "file_text files2 d ?n = Some []"
    using wf by (rule file_text_write_file)
  then have e3: "read_config_file files2 d ?n = []"
    by (simp add: read_config_file_def read_config_text_def text_lines_def)
  show ?thesis
    using r1 e1 r2 e2 e3 by simp
qed

theorem remove_rom_config_only_viewport_keys_witness:
  "output_folder example_manager = Some ''roms''
   \<and> read_config_file (fs viewport_only_world) ''roms'' ''pacman.zip.cfg'' \<noteq> []
   \<and> fst ` set (read_config_file (fs viewport_only_world) ''roms'' ''pacman.zip.cfg'')
        \<subseteq> set viewport_order
   \<and> (\<exists>w'. remove_rom_config example_manager viewport_only_world ''pacman'' True
                = Inr ((True, True), w')
          \<and> \<not> file_exists (fs w') ''roms'' ''pacman.zip.cfg'')
   \<and> (\<exists>w'. remove_rom_config example_manager viewport_only_world ''pacman'' False
                = Inr ((True, True), w')
          \<and> file_text (fs w') ''roms'' ''pacman.zip.cfg'' = Some []
          \<and> read_config_file (fs w') ''roms'' ''pacman.zip.cfg'' = [])"
proof -
  have r: "read_config_file (fs viewport_only_world) ''roms'' ''pacman.zip.cfg''
             = [(''aspect_ratio_index'', quoted ''23''), (''custom_viewport_width'', quoted ''320'')]"
    by (simp add: viewport_only_world_def read_config_file_def file_text_def read_config_text_def
        text_lines_def read_line_def split_eq_def py_strip_def py_isspace_def quoted_def
        LF_def CR_def)
  have a: "read_config_file (fs viewport_only_world) ''roms'' ''pacman.zip.cfg'' \<noteq> []"
    unfolding r by simp
  have b: "fst ` set (read_config_file (fs viewport_only_world) ''roms'' ''pacman.zip.cfg'')
             \<subseteq> set viewport_order"
    unfolding r by (simp add: viewport_order_def)
  show ?thesis
    using remove_rom_config_only_viewport_keys [OF example_folder(1) _ _, of viewport_only_world "''pacman''"]
      example_folder(1) a b
    by simp
qed

section \<open>Removing the overrides of a whole folder\<close>

text \<open>
  Claim C1 at a concrete folder. \<open>remove_all_overrides\<close> looks for three of the five
  viewport keys only and removes those three: a target written by \<open>update_rom_config\<close>
  keeps custom_viewport_x and custom_viewport_y (and so is never empty, never deleted),
  and a target holding only these two keys is counted as skipped.
\<close>

theorem remove_all_overrides_keeps_position_keys:
  "remove_all_overrides example_manager override_world False
     = Inr ((1, 1),
         \<lparr>fs = [(''roms'',
              [(''pacman.zip.cfg'',
                ''custom_viewport_x = '' @ quoted ''0'' @ [LF]
                  @ ''custom_viewport_y = '' @ quoted ''0'' @ [LF]),
               (''galaga.zip.cfg'',
                ''custom_viewport_x = '' @ quoted ''8'' @ [LF]
                  @ ''custom_viewport_y = '' @ quoted ''16'' @ [LF])])],
          logs = [''Found 2 config files in roms'',
                  ''Removed viewport overrides from pacman.zip.cfg'',
                  LF # ''Removal complete:'', ''  Removed: 1'', ''  Skipped: 1''],
          progress = []\<rparr>)"
  by code_simp

section \<open>Processing a folder of ROMs\<close>

lemma fs_notify [simp]: "fs (notify callback idx total_count rom_name w) = fs w"
  by (simp add: notify_def)

lemma quoted_int_or_zero:
  "quoted_int (or_zero v) = quoted (case v of Some v \<Rightarrow> py_str_int v | None \<Rightarrow> ''0'')"
proof -
  have "py_str_int 0 = ''0''" by code_simp
  then show ?thesis
    by (simp add: quoted_int_def or_zero_def split: option.splits)
qed

lemma read_config_file_cong:
  "file_text files d n = file_text files' d n \<Longrightarrow>
   read_config_file files d n = read_config_file files' d n"
  by (simp add: read_config_file_def)

text \<open>One step of the batch: the target of the ROM holds the override, and the record
  of every other target is as before.\<close>

lemma update_rom_config_step:
  assumes "output_folder m = Some d" and "dir_exists (fs w) d"
  shows "\<exists>w'. update_rom_config m w rom width height x y = Inr w'
           \<and> dir_exists (fs w') d
           \<and> written_override (fs w') d rom width height x y
           \<and> (\<forall>rom'. rom' \<noteq> rom \<longrightarrow>
                 read_config_file (fs w') d (rom' @ ''.zip.cfg'')
                   = read_config_file (fs w) d (rom' @ ''.zip.cfg''))"
proof -
  obtain w' where u: "update_rom_config m w rom width height x y = Inr w'"
    and de: "dir_exists (fs w') d"
    and rb: "map_of (read_config_file (fs w') d (rom @ ''.zip.cfg''))
               = map_of (set_viewport_keys (read_config_file (fs w) d (rom @ ''.zip.cfg'')) width height x y)"
    and oth: "\<forall>n'. n' \<noteq> rom @ ''.zip.cfg'' \<longrightarrow> file_text (fs w') d n' = file_text (fs w) d n'"
    using update_rom_config_read_back [OF assms] by blast
  have wo: "written_override (fs w') d rom width height x y"
    unfolding written_override_def rb map_of_set_viewport_keys quoted_int_or_zero
    by (simp add: quoted_int_def)
  have "read_config_file (fs w') d (rom' @ ''.zip.cfg'')
          = read_config_file (fs w) d (rom' @ ''.zip.cfg'')" if "rom' \<noteq> rom" for rom'
    using that oth by (intro read_config_file_cong) simp
  then show ?thesis
    using u de wo by blast
qed

lemma written_override_cong:
  "read_config_file files' d (rom @ ''.zip.cfg'') = read_config_file files d (rom @ ''.zip.cfg'')
   \<Longrightarrow> written_override files' d rom width height x y
        = written_override files d rom width height x y"
  by (simp add: written_override_def)

lemma process_loop_invariant:
  assumes "output_folder m = Some d"
  shows "dir_exists (fs w) d \<Longrightarrow> \<forall>rom\<in>handled. override_written_for m (fs w) d rom \<Longrightarrow>
         \<exists>counts' w'. process_loop m callback total_count idx counts w roms = Inr (counts', w')
           \<and> dir_exists (fs w') d
           \<and> (\<forall>rom\<in>handled \<union> py_stem ` set roms. override_written_for m (fs w') d rom)"
proof (induction roms arbitrary: w idx counts handled)
  case Nil
  then show ?case by simp
next
  case (Cons rom_file rest)
  let ?rom = "py_stem rom_file"
  let ?w1 = "notify callback idx total_count ?rom w"
  show ?case
  proof (cases "map_of (game_resolutions m) ?rom")
    case None
    let ?w2 = "log (''Skipped '' @ ?rom @ ''.zip: No resolution data in DAT file'') ?w1"
    have step: "process_loop m callback total_count idx counts w (rom_file # rest)
            = process_loop m callback total_count (idx + 1) (fst counts, snd counts + 1) ?w2 rest"
      using None by (simp add: Let_def)
    have "dir_exists (fs ?w2) d"
      using Cons.prems(1) by simp
    moreover have "\<forall>rom\<in>insert ?rom handled. override_written_for m (fs ?w2) d rom"
      using Cons.prems(2) None by (auto simp: override_written_for_def)
    ultimately obtain counts' w' where
      "process_loop m callback total_count (idx + 1) (fst counts, snd counts + 1) ?w2 rest
         = Inr (counts', w')"
      "dir_exists (fs w') d"
      "\<forall>rom\<in>insert ?rom handled \<union> py_stem ` set rest. override_written_for m (fs w') d rom"
      using Cons.IH [of ?w2 "insert ?rom handled"] by blast
    then show ?thesis
      unfolding step by auto
  next
    case (Some res)
    obtain dat_width dat_height where res: "res = (dat_width, dat_height)"
      by (cases res)
    let ?width = "effective (override_width m) dat_width"
    let ?height = "effective (override_height m) dat_height"
    have "dir_exists (fs ?w1) d"
      using Cons.prems(1) by simp
    then obtain w2 where u: "update_rom_config m ?w1 ?rom ?width ?height (override_x m) (override_y m)
                               = Inr w2"
      and de: "dir_exists (fs w2) d"
      and wo: "written_override (fs w2) d ?rom ?width ?height (override_x m) (override_y m)"
      and oth: "\<forall>rom'. rom' \<noteq> ?rom \<longrightarrow>
                 read_config_file (fs w2) d (rom' @ ''.zip.cfg'')
                   = read_config_file (fs ?w1) d (rom' @ ''.zip.cfg'')"
      using update_rom_config_step [OF assms] by blast
    have step: "process_loop m callback total_count idx counts w (rom_file # rest)
            = process_loop m callback total_count (idx + 1) (fst counts + 1, snd counts) w2 rest"
      using Some res u by (simp add: Let_def effective_def)
    have "override_written_for m (fs w2) d rom" if "rom \<in> insert ?rom handled" for rom
    proof (cases "rom = ?rom")
      case True
      then show ?thesis
        using wo Some res by (simp add: override_written_for_def)
    next
      case False
      then have "read_config_file (fs w2) d (rom @ ''.zip.cfg'')
                   = read_config_file (fs w) d (rom @ ''.zip.cfg'')"
        using oth by simp
      then have "override_written_for m (fs w2) d rom = override_written_for m (fs w) d rom"
        by (simp add: override_written_for_def written_override_def split: option.splits)
      then show ?thesis
        using that False Cons.prems(2) by simp
    qed
    then have "\<forall>rom\<in>insert ?rom handled. override_written_for m (fs w2) d rom"
      by blast
    then obtain counts' w' where
      "process_loop m callback total_count (idx + 1) (fst counts + 1, snd counts) w2 rest
         = Inr (counts', w')"
      "dir_exists (fs w') d"
      "\<forall>rom\<in>insert ?rom handled \<union> py_stem ` set rest. override_written_for m (fs w') d rom"
      using Cons.IH [of w2 "insert ?rom handled"] de by blast
    then show ?thesis
      unfolding step by auto
  qed
qed

text \<open>
  Claim C4. With an output folder that exists, \<open>process_roms\<close> returns, and for every
  ROM file found whose name has a catalog entry, the record read from its target
  afterwards holds as width the override width when there is one and the catalog width
  otherwise, the same for the height, and as x and y the override's x and y, or \<open>0\<close>
  where they are \<open>None\<close>: the catalog gives no position.
\<close>

theorem process_roms_precedence:
  assumes "output_folder m = Some d" and "dir_exists (fs w) d"
  shows "\<exists>counts w'. process_roms m w callback = Inr (counts, w')
           \<and> (\<forall>rom_file\<in>set (fst (get_rom_files m w)).
                \<forall>dat_width dat_height.
                  map_of (game_resolutions m) (py_stem rom_file) = Some (dat_width, dat_height) \<longrightarrow>
                  written_override (fs w') d (py_stem rom_file)
                    (case override_width m of Some v \<Rightarrow> v | None \<Rightarrow> dat_width)
                    (case override_height m of Some v \<Rightarrow> v | None \<Rightarrow> dat_height)
                    (override_x m) (override_y m))"
proof -
  obtain rom_files w1 where g: "get_rom_files m w = (rom_files, w1)"
    by (cases "get_rom_files m w")
  have f1: "fs w1 = fs w"
    using g by (auto simp: get_rom_files_def Let_def split: option.splits if_splits)
  have "dir_exists (fs w1) d"
    using assms(2) f1 by simp
  moreover have "\<forall>rom\<in>{}. override_written_for m (fs w1) d rom"
    by simp
  ultimately obtain counts w2 where
    pl: "process_loop m callback (length rom_files) 1 (0, 0) w1 rom_files = Inr (counts, w2)"
    and inv: "\<forall>rom\<in>{} \<union> py_stem ` set rom_files. override_written_for m (fs w2) d rom"
    using process_loop_invariant [OF assms(1), of w1 "{}" callback "length rom_files" 1 "(0, 0)" rom_files]
    by blast
  let ?w' = "log (''  Skipped: '' @ str_nat (snd counts))
               (log (''  Processed: '' @ str_nat (fst counts))
                  (log (LF # ''Processing complete:'') w2))"
  have pr: "process_roms m w callback = Inr (counts, ?w')"
    using g pl by (cases counts) (simp add: process_roms_def)
  have "written_override (fs ?w') d (py_stem rom_file)
          (case override_width m of Some v \<Rightarrow> v | None \<Rightarrow> dat_width)
          (case override_height m of Some v \<Rightarrow> v | None \<Rightarrow> dat_height)
          (override_x m) (override_y m)"
    if "rom_file \<in> set rom_files"
      and "map_of (game_resolutions m) (py_stem rom_file) = Some (dat_width, dat_height)"
    for rom_file dat_width dat_height
    using inv that by (auto simp: override_written_for_def effective_def)
  then show ?thesis
    using pr g by auto
qed

theorem process_roms_precedence_witness:
  "output_folder example_manager = Some ''roms'' \<and> dir_exists (fs example_world) ''roms''
   \<and> override_width example_manager = Some 1920 \<and> override_height example_manager = Some 1080
   \<and> override_x example_manager = None \<and> override_y example_manager = None
   \<and> fst (get_rom_files example_manager example_world) = [''pacman.zip'']
   \<and> map_of (game_resolutions example_manager) (py_stem ''pacman.zip'') = Some (320, 240)
   \<and> (\<exists>counts w'. process_roms example_manager example_world False = Inr (counts, w')
         \<and> map_of (read_config_file (fs w') ''roms'' ''pacman.zip.cfg'') ''custom_viewport_width''
             = Some (quoted ''1920'')
         \<and> map_of (read_config_file (fs w') ''roms'' ''pacman.zip.cfg'') ''custom_viewport_height''
             = Some (quoted ''1080'')
         \<and> map_of (read_config_file (fs w') ''roms'' ''pacman.zip.cfg'') ''custom_viewport_x''
             = Some (quoted ''0'')
         \<and> map_of (read_config_file (fs w') ''roms'' ''pacman.zip.cfg'') ''custom_viewport_y''
             = Some (quoted ''0''))
   \<and> (\<exists>counts w'.
         process_roms (example_manager\<lparr>override_width := None, override_height := None\<rparr>)
           example_world False = Inr (counts, w')
         \<and> map_of (read_config_file (fs w') ''roms'' ''pacman.zip.cfg'') ''custom_viewport_width''
             = Some (quoted ''320'')
         \<and> map_of (read_config_file (fs w') ''roms'' ''pacman.zip.cfg'') ''custom_viewport_height''
             = Some (quoted ''240''))"
proof -
  let ?m = "example_manager\<lparr>override_width := None, override_height := None\<rparr>"
  have ov: "override_width example_manager = Some 1920" "override_height example_manager = Some 1080"
    "override_x example_manager = None" "override_y example_manager = None"
    by (simp_all add: example_manager_def)
  have st: "py_stem ''pacman.zip'' = ''pacman''"
    by (simp add: py_stem_def)
  have g: "fst (get_rom_files example_manager example_world) = [''pacman.zip'']"
    by (simp add: get_rom_files_def example_manager_def example_world_def dir_exists_def
        glob_suffix_def endswith_def Let_def)
  have g': "fst (get_rom_files ?m example_world) = [''pacman.zip'']"
    by (simp add: get_rom_files_def example_manager_def example_world_def dir_exists_def
        glob_suffix_def endswith_def Let_def)
  have e: "map_of (game_resolutions example_manager) (py_stem ''pacman.zip'') = Some (320, 240)"
    unfolding st by (simp add: example_manager_def)
  have e': "map_of (game_resolutions ?m) (py_stem ''pacman.zip'') = Some (320, 240)"
    unfolding st by (simp add: example_manager_def)
  have o': "output_folder ?m = Some ''roms''"
    by (simp add: output_folder_def example_manager_def)
  have n: "py_str_int 1920 = ''1920''" "py_str_int 1080 = ''1080''"
    "py_str_int 320 = ''320''" "py_str_int 240 = ''240''"
    by code_simp+
  obtain counts w' where p: "process_roms example_manager example_world False = Inr (counts, w')"
    and q: "written_override (fs w') ''roms'' (py_stem ''pacman.zip'') 1920 1080 None None"
    using process_roms_precedence [OF example_folder, of False] g e ov by fastforce
  obtain counts2 w2 where p2: "process_roms ?m example_world False = Inr (counts2, w2)"
    and q2: "written_override (fs w2) ''roms'' (py_stem ''pacman.zip'') 320 240 None None"
    using process_roms_precedence [OF o' example_folder(2), of False] g' e' ov by fastforce
  show ?thesis
    using example_folder ov g e p q p2 q2 unfolding st written_override_def n
    by auto
qed

section \<open>Parsing a catalog\<close>

lemma parse_game_cases:
  "parse_game st g = st
   \<or> (\<exists>msg. parse_game st g = (fst st, snd st @ [msg]))
   \<or> (\<exists>name res info. get_attr g ''name'' = Some name
         \<and> parse_game st g =
             ((fst st)\<lparr>game_resolutions := AList.update name res (game_resolutions (fst st)),
                       game_info := AList.update name info (game_info (fst st))\<rparr>, snd st))"
  unfolding parse_game_def
  by (cases "get_attr g ''name''"; cases "lookup_resolution g"; cases st)
     (auto split: option.splits)

lemma parse_game_invalid:
  assumes "get_attr game ''name'' = Some game_name" and "game_name \<noteq> []"
    and "lookup_resolution game = (Some width, Some height, rotation, screen_type)"
    and "width \<noteq> []" and "height \<noteq> []"
    and "py_int width = None \<or> py_int height = None"
  shows "parse_game st game = (fst st, snd st @ [invalid_warning game_name width height])"
  using assms
  by (auto simp: parse_game_def truthy_def str_opt_def invalid_warning_def split: option.splits)

lemma parse_game_logs: "set (snd st) \<subseteq> set (snd (parse_game st g))"
  using parse_game_cases [of st g] by auto

lemma foldl_parse_game_logs: "set (snd st) \<subseteq> set (snd (foldl parse_game st gs))"
proof (induction gs arbitrary: st)
  case Nil
  show ?case by simp
next
  case (Cons g gs)
  show ?case
    using parse_game_logs [of st g] Cons [of "parse_game st g"] by auto
qed

lemma foldl_parse_game_warning:
  assumes "g \<in> set gs" and "\<And>st. parse_game st g = (fst st, snd st @ [msg])"
  shows "msg \<in> set (snd (foldl parse_game st gs))"
  using assms(1)
proof (induction gs arbitrary: st)
  case Nil
  then show ?case by simp
next
  case (Cons a gs)
  show ?case
  proof (cases "a = g")
    case True
    have "msg \<in> set (snd (parse_game st g))"
      by (simp add: assms(2))
    then show ?thesis
      using foldl_parse_game_logs [of "parse_game st g" gs] True by auto
  next
    case False
    then show ?thesis
      using Cons by simp
  qed
qed

lemma parse_game_other_name:
  assumes "get_attr g ''name'' \<noteq> Some name"
  shows "map_of (game_resolutions (fst (parse_game st g))) name
           = map_of (game_resolutions (fst st)) name
         \<and> map_of (game_info (fst (parse_game st g))) name = map_of (game_info (fst st)) name"
  using parse_game_cases [of st g] assms by (auto simp: update_conv')

lemma foldl_parse_game_entry:
  assumes "\<And>g st. g \<in> set gs \<Longrightarrow> get_attr g ''name'' = Some name \<Longrightarrow> fst (parse_game st g) = fst st"
  shows "map_of (game_resolutions (fst (foldl parse_game st gs))) name
           = map_of (game_resolutions (fst st)) name
         \<and> map_of (game_info (fst (foldl parse_game st gs))) name = map_of (game_info (fst st)) name"
  using assms
proof (induction gs arbitrary: st)
  case Nil
  show ?case by simp
next
  case (Cons a gs)
  have step: "map_of (game_resolutions (fst (parse_game st a))) name
                = map_of (game_resolutions (fst st)) name
              \<and> map_of (game_info (fst (parse_game st a))) name = map_of (game_info (fst st)) name"
  proof (cases "get_attr a ''name'' = Some name")
    case True
    then show ?thesis using Cons.prems [of a st] by simp
  next
    case False
    then show ?thesis by (rule parse_game_other_name)
  qed
  have "map_of (game_resolutions (fst (foldl parse_game (parse_game st a) gs))) name
           = map_of (game_resolutions (fst (parse_game st a))) name
         \<and> map_of (game_info (fst (foldl parse_game (parse_game st a) gs))) name
           = map_of (game_info (fst (parse_game st a))) name"
    by (rule Cons.IH) (use Cons.prems in auto)
  then show ?case
    using step by simp
qed

text \<open>
  Claim C9, as amended. For a named game element whose resolution lookup gives a width
  and a height that are both present and not empty, and of which one at least is not an
  integer for \<open>int\<close>: the loop body leaves the manager as it is and logs the warning
  naming the game; \<open>parse_dat_file\<close> on a catalog holding the element returns, the
  warning is in its log, and when no other game element bears the name, the result maps
  hold for the name what they held before the parse (nothing, for a new manager).
\<close>

theorem parse_invalid_resolution:
  assumes "get_attr game ''name'' = Some game_name" and "game_name \<noteq> []"
    and "lookup_resolution game = (Some width, Some height, rotation, screen_type)"
    and "width \<noteq> []" and "height \<noteq> []"
    and "py_int width = None \<or> py_int height = None"
    and "dat_file m = Some file"
    and "game \<in> set (findall_desc root ''game'')"
  shows "parse_game (m0, lines) game
           = (m0, lines @ [''Warning: Invalid resolution for '' @ game_name @ '': ''
                              @ width @ ''x'' @ height])
       \<and> (\<exists>m' w'. parse_dat_file m w (Inr root) = Inr (m', w')
             \<and> (''Warning: Invalid resolution for '' @ game_name @ '': '' @ width @ ''x'' @ height)
                  \<in> set (logs w')
             \<and> ((\<forall>g\<in>set (findall_desc root ''game'').
                     get_attr g ''name'' = Some game_name \<longrightarrow> g = game) \<longrightarrow>
                  map_of (game_resolutions m') game_name = map_of (game_resolutions m) game_name
                  \<and> map_of (game_info m') game_name = map_of (game_info m) game_name))"
proof
  note step = parse_game_invalid [OF assms(1-6)]
  show "parse_game (m0, lines) game
           = (m0, lines @ [''Warning: Invalid resolution for '' @ game_name @ '': ''
                              @ width @ ''x'' @ height])"
    using step [of "(m0, lines)"] by (simp add: invalid_warning_def)
  let ?games = "findall_desc root ''game''"
  let ?st0 = "(m, logs w @ [''Parsing DAT file: '' @ file])"
  obtain m' lines' where fl: "foldl parse_game ?st0 ?games = (m', lines')"
    by (cases "foldl parse_game ?st0 ?games")
  let ?found = "length (game_resolutions m')"
  let ?lines1 = "lines' @ [''Found '' @ str_nat ?found @ '' games with resolution data'']"
  let ?total_games = "length (findall_desc root ''game'') + length (findall_desc root ''machine'')"
  let ?lines2 = "if ?found = 0 \<and> 0 < ?total_games
                 then ?lines1 @
                   [''Warning: Found '' @ str_nat ?total_games
                      @ '' game entries but none have resolution data.'',
                    ''This DAT file may not contain display/video information.'',
                    ''Please use a DAT file that includes resolution data ''
                      @ ''(e.g., MAME XML, FinalBurn Neo DAT with display tags).'']
                 else ?lines1"
  have pd: "parse_dat_file m w (Inr root) = Inr (m', w\<lparr>logs := ?lines2\<rparr>)"
    by (simp only: parse_dat_file_def Let_def assms(7) option.case sum.case fl prod.case)
  have lg: "set lines' \<subseteq> set (logs (w\<lparr>logs := ?lines2\<rparr>))"
    by auto
  have "invalid_warning game_name width height \<in> set (snd (foldl parse_game ?st0 ?games))"
    using assms(8) step by (rule foldl_parse_game_warning)
  then have wn: "(''Warning: Invalid resolution for '' @ game_name @ '': '' @ width @ ''x'' @ height)
                  \<in> set (logs (w\<lparr>logs := ?lines2\<rparr>))"
    using lg fl by (auto simp: invalid_warning_def)
  have ent: "map_of (game_resolutions m') game_name = map_of (game_resolutions m) game_name
             \<and> map_of (game_info m') game_name = map_of (game_info m) game_name"
    if only: "\<forall>g\<in>set ?games. get_attr g ''name'' = Some game_name \<longrightarrow> g = game"
  proof -
    have "fst (parse_game st g) = fst st"
      if "g \<in> set ?games" "get_attr g ''name'' = Some game_name" for g st
      using that only step [of st] by auto
    then show ?thesis
      using foldl_parse_game_entry [of ?games game_name ?st0] fl by simp
  qed
  show "\<exists>m' w'. parse_dat_file m w (Inr root) = Inr (m', w')
             \<and> (''Warning: Invalid resolution for '' @ game_name @ '': '' @ width @ ''x'' @ height)
                  \<in> set (logs w')
             \<and> ((\<forall>g\<in>set (findall_desc root ''game'').
                     get_attr g ''name'' = Some game_name \<longrightarrow> g = game) \<longrightarrow>
                  map_of (game_resolutions m') game_name = map_of (game_resolutions m) game_name
                  \<and> map_of (game_info m') game_name = map_of (game_info m) game_name)"
    using pd wn ent by blast
qed

lemma invalid_game_facts:
  "get_attr invalid_game ''name'' = Some ''dkong''"
  "lookup_resolution invalid_game = (Some ''abc'', Some ''240'', [], [])"
  "py_int ''abc'' = None"
  "findall_desc (Element ''datafile'' [] None [invalid_game, valid_game]) ''game''
     = [invalid_game, valid_game]"
  "get_attr valid_game ''name'' = Some ''galaga''"
  by code_simp+

theorem parse_invalid_resolution_witness:
  "get_attr invalid_game ''name'' = Some ''dkong'' \<and> ''dkong'' \<noteq> []
   \<and> lookup_resolution invalid_game = (Some ''abc'', Some ''240'', [], [])
   \<and> ''abc'' \<noteq> [] \<and> ''240'' \<noteq> [] \<and> py_int ''abc'' = None
   \<and> dat_file fresh_manager = Some ''catalog.dat''
   \<and> findall_desc (Element ''datafile'' [] None [invalid_game, valid_game]) ''game''
        = [invalid_game, valid_game]
   \<and> parse_game (fresh_manager, []) invalid_game
        = (fresh_manager, [''Warning: Invalid resolution for dkong: abcx240''])
   \<and> (\<exists>m' w'. parse_dat_file fresh_manager example_world
                  (Inr (Element ''datafile'' [] None [invalid_game, valid_game])) = Inr (m', w')
         \<and> ''Warning: Invalid resolution for dkong: abcx240'' \<in> set (logs w')
         \<and> map_of (game_resolutions m') ''dkong'' = None
         \<and> map_of (game_info m') ''dkong'' = None)"
proof -
  let ?root = "Element ''datafile'' [] None [invalid_game, valid_game]"
  have d: "dat_file fresh_manager = Some ''catalog.dat''"
    by (simp add: fresh_manager_def example_manager_def)
  have e: "map_of (game_resolutions fresh_manager) ''dkong'' = None"
    "map_of (game_info fresh_manager) ''dkong'' = None"
    by (simp_all add: fresh_manager_def)
  have mem: "invalid_game \<in> set (findall_desc ?root ''game'')"
    unfolding invalid_game_facts(4) by simp
  have only: "\<forall>g\<in>set (findall_desc ?root ''game'').
                get_attr g ''name'' = Some ''dkong'' \<longrightarrow> g = invalid_game"
    unfolding invalid_game_facts(4) by (simp add: invalid_game_facts(5))
  have p: "py_int ''abc'' = None \<or> py_int ''240'' = None"
    by (simp add: invalid_game_facts(3))
  show ?thesis
    using parse_invalid_resolution [OF invalid_game_facts(1) _ invalid_game_facts(2) _ _ p d mem,
        of fresh_manager "[]" example_world]
      invalid_game_facts(1-4) d e only
    by auto
qed

text \<open>
  Claim C9 as stated fails for a width attribute that is empty: the empty string is not
  an integer for \<open>int\<close>, yet the guard \<open>if width and height\<close> skips the game before any
  conversion, so that no warning is logged; the game is dropped silently.
\<close>

theorem parse_empty_width_counterexample:
  "get_attr empty_width_game ''name'' = Some ''pacman''
   \<and> find_desc empty_width_game ''display''
       = Some (Element ''display'' [(''width'', []), (''height'', ''288'')] None [])
   \<and> py_int [] = None
   \<and> parse_game (fresh_manager, []) empty_width_game = (fresh_manager, [])
   \<and> parse_dat_file fresh_manager example_world
        (Inr (Element ''datafile'' [] None [empty_width_game, valid_game]))
       = Inr (fresh_manager
                \<lparr>game_resolutions := [(''galaga'', (224, 288))],
                 game_info := [(''galaga'',
                    \<lparr>gi_name = ''galaga'', gi_width = 224, gi_height = 288,
                     gi_description = [], gi_year = [], gi_manufacturer = [],
                     gi_cloneof = [], gi_rotate = [], gi_screen_type = []\<rparr>)]\<rparr>,
              example_world
                \<lparr>logs := [''Parsing DAT file: catalog.dat'',
                           ''Found 1 games with resolution data'']\<rparr>)"
  by code_simp

end
